theory Spec2Isabelle
  imports Complex_Main "HOL-Library.List_Lexorder"
begin

section \<open>Strings and numbers of the host language\<close>

text \<open>
  A string of the program is a sequence of UTF-16 code units; a code unit is an integer
  (from 0 to 65535). \<open>js\<close> turns a literal into such a sequence.
\<close>

type_synonym jstring = "int list"

definition js :: "string \<Rightarrow> jstring" where
  "js s = map of_char s"

text \<open>The class \<open>\s\<close> of regular expressions, which is also what \<open>trim\<close> strips.\<close>

definition is_ws :: "int \<Rightarrow> bool" where
  "is_ws c = (c = 9 \<or> c = 10 \<or> c = 11 \<or> c = 12 \<or> c = 13 \<or> c = 32 \<or> c = 160
     \<or> c = 5760 \<or> (8192 \<le> c \<and> c \<le> 8202) \<or> c = 8232 \<or> c = 8233 \<or> c = 8239
     \<or> c = 8287 \<or> c = 12288 \<or> c = 65279)"

definition is_digit :: "int \<Rightarrow> bool" where
  "is_digit c = (48 \<le> c \<and> c \<le> 57)"

definition is_letter :: "int \<Rightarrow> bool" where
  "is_letter c = ((65 \<le> c \<and> c \<le> 90) \<or> (97 \<le> c \<and> c \<le> 122))"

definition trim :: "jstring \<Rightarrow> jstring" where
  "trim s = rev (dropWhile is_ws (rev (dropWhile is_ws s)))"

text \<open>
  \<open>toLowerCase\<close> on the code units A to Z; the other code units are left as they are.
  The program applies it to the time token only, whose letters are in \<open>[a-zA-Z]\<close>.
\<close>

definition toLowerCase :: "jstring \<Rightarrow> jstring" where
  "toLowerCase s = map (\<lambda>c. if 65 \<le> c \<and> c \<le> 90 then c + 32 else c) s"

fun startsWith :: "jstring \<Rightarrow> jstring \<Rightarrow> bool" where
  "startsWith s [] = True"
| "startsWith [] (p # ps) = False"
| "startsWith (c # cs) (p # ps) = (c = p \<and> startsWith cs ps)"

fun str_includes :: "jstring \<Rightarrow> jstring \<Rightarrow> bool" where
  "str_includes [] p = (p = [])"
| "str_includes (c # cs) p = (startsWith (c # cs) p \<or> str_includes cs p)"

text \<open>\<open>s.indexOf(c)\<close> for a single code unit; \<open>None\<close> is the result \<open>-1\<close>.\<close>

fun indexOf :: "jstring \<Rightarrow> int \<Rightarrow> nat option" where
  "indexOf [] c = None"
| "indexOf (x # xs) c = (if x = c then Some 0 else map_option Suc (indexOf xs c))"

text \<open>\<open>split\<close> at every code unit of a class (a one-character separator or character class).\<close>

fun split_on :: "(int \<Rightarrow> bool) \<Rightarrow> jstring \<Rightarrow> jstring list" where
  "split_on p [] = [[]]"
| "split_on p (c # cs) =
     (if p c then [] # split_on p cs
      else (case split_on p cs of [] \<Rightarrow> [[c]] | x # xs \<Rightarrow> (c # x) # xs))"

text \<open>\<open>s.replace(a, b)\<close> with a one-character string \<open>a\<close>: the first occurrence only.\<close>

fun replace_first :: "int \<Rightarrow> int \<Rightarrow> jstring \<Rightarrow> jstring" where
  "replace_first a b [] = []"
| "replace_first a b (c # cs) = (if c = a then b # cs else c # replace_first a b cs)"

text \<open>
  A number of the program is a rational, or \<open>None\<close> for NaN. \<open>Number(s)\<close> is modelled on
  the strings its callers pass: a run of digits, or two runs of digits around a dot; the
  empty string is 0 and every other string here is NaN. (Signs, exponents, hexadecimal
  literals, surrounding white space and \<open>Infinity\<close> do not occur in what the timestamp
  pattern captures.)
\<close>

type_synonym jsnum = "rat option"

definition digits_val :: "jstring \<Rightarrow> int" where
  "digits_val ds = foldl (\<lambda>a c. 10 * a + (c - 48)) 0 ds"

definition Number :: "jstring \<Rightarrow> jsnum" where
  "Number s =
     (if list_all is_digit s then Some (of_int (digits_val s))
      else (case split_on (\<lambda>c. c = 46) s of
              [a, b] \<Rightarrow>
                if a \<noteq> [] \<and> b \<noteq> [] \<and> list_all is_digit a \<and> list_all is_digit b
                then Some (of_int (digits_val a) + of_int (digits_val b) / 10 ^ length b)
                else None
            | _ \<Rightarrow> None))"

text \<open>Reading an array of numbers at an index: \<open>undefined\<close> (past the end) behaves as NaN.\<close>

definition num_at :: "jsnum list \<Rightarrow> nat \<Rightarrow> jsnum" where
  "num_at xs i = (if i < length xs then xs ! i else None)"

definition str_at :: "jstring list \<Rightarrow> nat \<Rightarrow> jsnum" where
  "str_at xs i = (if i < length xs then Number (xs ! i) else None)"

definition num_gt :: "jsnum \<Rightarrow> rat \<Rightarrow> bool" where
  "num_gt a b = (case a of None \<Rightarrow> False | Some x \<Rightarrow> x > b)"

definition num_lt :: "jsnum \<Rightarrow> rat \<Rightarrow> bool" where
  "num_lt a b = (case a of None \<Rightarrow> False | Some x \<Rightarrow> x < b)"

definition num_eq :: "jsnum \<Rightarrow> rat \<Rightarrow> bool" where
  "num_eq a b = (case a of None \<Rightarrow> False | Some x \<Rightarrow> x = b)"

definition num_add :: "jsnum \<Rightarrow> rat \<Rightarrow> jsnum" where
  "num_add a b = map_option (\<lambda>x. x + b) a"

text \<open>Truncation towards zero, as the \<open>Date\<close> constructor applies to its arguments.\<close>

definition trunc :: "rat \<Rightarrow> int" where
  "trunc x = (if x < 0 then \<lceil>x\<rceil> else \<lfloor>x\<rfloor>)"

section \<open>The host: time zone, locale and clock\<close>

text \<open>
  What the program reads from its environment: the offset of local time from UTC in
  milliseconds (taken as constant over the transcript), \<open>navigator.language\<close>, and the
  clock, whose \<open>i\<close>-th reading within a call is \<open>clock i\<close>.
\<close>

record host =
  tzOffset :: int
  language :: jstring
  clock :: "nat \<Rightarrow> int"

section \<open>Dates\<close>

text \<open>
  A \<open>Date\<close> holds a time value: milliseconds since 1970-01-01T00:00Z. The functions
  below follow the definitions of the language standard (Day, MakeDay, MakeTime,
  MakeDate, TimeClip, LocalTime, UTC), with the proleptic Gregorian calendar computed by
  the usual era arithmetic.
\<close>

definition msPerDay :: int where
  "msPerDay = 86400000"

definition Day :: "int \<Rightarrow> int" where
  "Day t = t div msPerDay"

definition days_from_civil :: "int \<Rightarrow> int \<Rightarrow> int \<Rightarrow> int" where
  "days_from_civil y m d =
     (let y' = (if m \<le> 2 then y - 1 else y);
          era = y' div 400;
          yoe = y' mod 400;
          doy = (153 * (if m > 2 then m - 3 else m + 9) + 2) div 5 + d - 1;
          doe = yoe * 365 + yoe div 4 - yoe div 100 + doy
      in era * 146097 + doe - 719468)"

definition civil_from_days :: "int \<Rightarrow> int \<times> int \<times> int" where
  "civil_from_days z =
     (let z' = z + 719468;
          era = z' div 146097;
          doe = z' mod 146097;
          yoe = (doe - doe div 1460 + doe div 36524 - doe div 146096) div 365;
          doy = doe - (365 * yoe + yoe div 4 - yoe div 100);
          mp = (5 * doy + 2) div 153;
          d = doy - (153 * mp + 2) div 5 + 1;
          m = (if mp < 10 then mp + 3 else mp - 9);
          y = yoe + era * 400 + (if m \<le> 2 then 1 else 0)
      in (y, m, d))"

definition MakeDay :: "int \<Rightarrow> int \<Rightarrow> int \<Rightarrow> int" where
  "MakeDay year month date = days_from_civil (year + month div 12) (month mod 12 + 1) 1 + date - 1"

definition MakeTime :: "int \<Rightarrow> int \<Rightarrow> int \<Rightarrow> int \<Rightarrow> int" where
  "MakeTime hour minute sec ms = hour * 3600000 + minute * 60000 + sec * 1000 + ms"

definition MakeDate :: "int \<Rightarrow> int \<Rightarrow> int" where
  "MakeDate day time = day * msPerDay + time"

definition TimeClip :: "int \<Rightarrow> int option" where
  "TimeClip t = (if \<bar>t\<bar> > 8640000000000000 then None else Some t)"

definition LocalTime :: "host \<Rightarrow> int \<Rightarrow> int" where
  "LocalTime h t = t + tzOffset h"

definition UTC :: "host \<Rightarrow> int \<Rightarrow> int" where
  "UTC h t = t - tzOffset h"

text \<open>
  \<open>new Date(year, month, day, hours, minutes)\<close>: NaN in any argument gives an invalid
  date (\<open>None\<close>); a year from 0 to 99 means 1900 plus that year; out-of-range components
  carry over into the next unit.
\<close>

definition new_Date :: "host \<Rightarrow> jsnum \<Rightarrow> jsnum \<Rightarrow> jsnum \<Rightarrow> jsnum \<Rightarrow> jsnum \<Rightarrow> int option" where
  "new_Date h year month day hours minutes =
     (case (year, month, day, hours, minutes) of
        (Some y, Some m, Some d, Some hh, Some mi) \<Rightarrow>
          (let yi = trunc y;
               yr = (if 0 \<le> yi \<and> yi \<le> 99 then 1900 + yi else yi)
           in TimeClip (UTC h (MakeDate (MakeDay yr (trunc m) (trunc d))
                                        (MakeTime (trunc hh) (trunc mi) 0 0))))
      | _ \<Rightarrow> None)"

definition getFullYear :: "host \<Rightarrow> int \<Rightarrow> int" where
  "getFullYear h t = fst (civil_from_days (Day (LocalTime h t)))"

definition getHours :: "host \<Rightarrow> int \<Rightarrow> nat" where
  "getHours h t = nat ((LocalTime h t div 3600000) mod 24)"

definition getDay :: "host \<Rightarrow> int \<Rightarrow> nat" where
  "getDay h t = nat ((Day (LocalTime h t) + 4) mod 7)"

text \<open>Decimal digits of fixed width, as \<open>toISOString\<close> writes them.\<close>

definition pad2 :: "int \<Rightarrow> jstring" where
  "pad2 n = [48 + n div 10 mod 10, 48 + n mod 10]"

definition pad3 :: "int \<Rightarrow> jstring" where
  "pad3 n = (48 + n div 100 mod 10) # pad2 n"

definition pad4 :: "int \<Rightarrow> jstring" where
  "pad4 n = (48 + n div 1000 mod 10) # pad3 n"

definition pad6 :: "int \<Rightarrow> jstring" where
  "pad6 n = [48 + n div 100000 mod 10, 48 + n div 10000 mod 10] @ pad4 n"

text \<open>
  The year of \<open>toISOString\<close>: four digits from 0 to 9999, otherwise a sign and six digits
  (time values of the language stay within six-digit years).
\<close>

definition iso_year :: "int \<Rightarrow> jstring" where
  "iso_year y =
     (if 0 \<le> y \<and> y \<le> 9999 then pad4 y
      else if y < 0 then 45 # pad6 (- y) else 43 # pad6 y)"

definition toISOString :: "int \<Rightarrow> jstring" where
  "toISOString t =
     (let (y, m, d) = civil_from_days (Day t);
          tod = t mod msPerDay
      in iso_year y @ [45] @ pad2 m @ [45] @ pad2 d @ [84]
         @ pad2 (tod div 3600000) @ [58] @ pad2 (tod div 60000 mod 60) @ [58]
         @ pad2 (tod div 1000 mod 60) @ [46] @ pad3 (tod mod 1000) @ [90])"

text \<open>
  \<open>new Date(s).getTime()\<close> on a date-only string \<open>YYYY-MM-DD\<close> or \<open>\<plusminus>YYYYYY-MM-DD\<close>, the
  forms \<open>toISOString\<close> writes before its \<open>T\<close>: midnight UTC of that day; \<open>None\<close> is NaN.
\<close>

definition parse_ymd :: "jstring \<Rightarrow> jstring \<Rightarrow> jstring \<Rightarrow> int \<Rightarrow> int option" where
  "parse_ymd ys mos ds sign =
     (let y = sign * digits_val ys; m = digits_val mos; d = digits_val ds
      in if list_all is_digit (ys @ mos @ ds) \<and> 1 \<le> m \<and> m \<le> 12 \<and> 1 \<le> d \<and> d \<le> 31
         then TimeClip (MakeDate (MakeDay y (m - 1) d) 0) else None)"

definition Date_parse :: "jstring \<Rightarrow> int option" where
  "Date_parse s =
     (if length s = 10 \<and> s ! 4 = 45 \<and> s ! 7 = 45
      then parse_ymd (take 4 s) (take 2 (drop 5 s)) (drop 8 s) 1
      else if length s = 13 \<and> (s ! 0 = 43 \<or> s ! 0 = 45) \<and> s ! 7 = 45 \<and> s ! 10 = 45
              \<and> \<not> (s ! 0 = 45 \<and> digits_val (take 6 (drop 1 s)) = 0)
      then parse_ymd (take 6 (drop 1 s)) (take 2 (drop 8 s)) (drop 11 s)
             (if s ! 0 = 45 then - 1 else 1)
      else None)"

section \<open>The timestamp pattern\<close>

text \<open>
  A regular expression is run as a backtracking matcher: applied to the rest of the
  input it returns the rests after each way of matching, in the order the engine tries
  them (greedy quantifiers take the longer match first). The match of the whole pattern
  is the first result.
\<close>

type_synonym rx = "jstring \<Rightarrow> jstring list"

definition rx_cls :: "(int \<Rightarrow> bool) \<Rightarrow> rx" where
  "rx_cls p s = (case s of [] \<Rightarrow> [] | c # cs \<Rightarrow> if p c then [cs] else [])"

definition rx_seq :: "rx \<Rightarrow> rx \<Rightarrow> rx" where
  "rx_seq a b s = concat (map b (a s))"

definition rx_opt :: "rx \<Rightarrow> rx" where
  "rx_opt a s = a s @ [s]"

text \<open>\<open>a{m,m+k}\<close>: \<open>m\<close> times, then up to \<open>k\<close> more, greedily.\<close>

fun rx_rep :: "rx \<Rightarrow> nat \<Rightarrow> nat \<Rightarrow> rx" where
  "rx_rep a 0 0 s = [s]"
| "rx_rep a 0 (Suc k) s = concat (map (rx_rep a 0 k) (a s)) @ [s]"
| "rx_rep a (Suc m) k s = concat (map (rx_rep a m k) (a s))"

definition rx_range :: "rx \<Rightarrow> nat \<Rightarrow> nat \<Rightarrow> rx" where
  "rx_range a lo hi = rx_rep a lo (hi - lo)"

text \<open>\<open>c*\<close> and \<open>c+\<close> for a character class \<open>c\<close>, greedy.\<close>

fun rx_star_cls :: "(int \<Rightarrow> bool) \<Rightarrow> rx" where
  "rx_star_cls p [] = [[]]"
| "rx_star_cls p (c # cs) = (if p c then rx_star_cls p cs @ [c # cs] else [c # cs])"

definition rx_plus_cls :: "(int \<Rightarrow> bool) \<Rightarrow> rx" where
  "rx_plus_cls p = rx_seq (rx_cls p) (rx_star_cls p)"

definition is_datesep :: "int \<Rightarrow> bool" where
  "is_datesep c = (c = 45 \<or> c = 46 \<or> c = 47)"

definition is_timesep :: "int \<Rightarrow> bool" where
  "is_timesep c = (c = 58 \<or> c = 46)"

text \<open>\<open>\d{1,4}[-./]\d{1,2}[-./]\d{2,4}\<close>\<close>

definition date_rx :: rx where
  "date_rx =
     rx_seq (rx_range (rx_cls is_digit) 1 4) (rx_seq (rx_cls is_datesep)
    (rx_seq (rx_range (rx_cls is_digit) 1 2) (rx_seq (rx_cls is_datesep)
            (rx_range (rx_cls is_digit) 2 4))))"

text \<open>\<open>\d{1,2}[:.]\d{2}(?:[:.]\d{2})?(?:\s?[a-zA-Z]{1,2})?\<close>\<close>

definition time_rx :: rx where
  "time_rx =
     rx_seq (rx_range (rx_cls is_digit) 1 2) (rx_seq (rx_cls is_timesep)
    (rx_seq (rx_range (rx_cls is_digit) 2 2)
    (rx_seq (rx_opt (rx_seq (rx_cls is_timesep) (rx_range (rx_cls is_digit) 2 2)))
            (rx_opt (rx_seq (rx_opt (rx_cls is_ws)) (rx_range (rx_cls is_letter) 1 2))))))"

text \<open>\<open>[,.]?\s+\<close> between the two groups, and \<open>\]?(?:\s-\s)?\<close> after them.\<close>

definition mid_rx :: rx where
  "mid_rx = rx_seq (rx_opt (rx_cls (\<lambda>c. c = 44 \<or> c = 46))) (rx_plus_cls is_ws)"

definition tail_rx :: rx where
  "tail_rx =
     rx_seq (rx_opt (rx_cls (\<lambda>c. c = 93)))
            (rx_opt (rx_seq (rx_cls is_ws) (rx_seq (rx_cls (\<lambda>c. c = 45)) (rx_cls is_ws))))"

text \<open>
  With capture groups, a state of the matcher is the rest of the input and the groups
  captured so far.
\<close>

type_synonym mstate = "jstring \<times> jstring list"

definition captured :: "jstring \<Rightarrow> jstring \<Rightarrow> jstring" where
  "captured s s' = take (length s - length s') s"

definition rx_plain :: "rx \<Rightarrow> mstate \<Rightarrow> mstate list" where
  "rx_plain a st = map (\<lambda>s'. (s', snd st)) (a (fst st))"

definition rx_group :: "rx \<Rightarrow> mstate \<Rightarrow> mstate list" where
  "rx_group a st = map (\<lambda>s'. (s', snd st @ [captured (fst st) s'])) (a (fst st))"

definition rx_then :: "(mstate \<Rightarrow> mstate list) \<Rightarrow> (mstate \<Rightarrow> mstate list) \<Rightarrow> mstate \<Rightarrow> mstate list" where
  "rx_then a b st = concat (map b (a st))"

text \<open>
  \<open>TIMESTAMP_PATTERN\<close>:
  \<open>/^\[?(\d{1,4}[-./]\d{1,2}[-./]\d{2,4})[,.]?\s+(\d{1,2}[:.]\d{2}(?:[:.]\d{2})?(?:\s?[a-zA-Z]{1,2})?)\]?(?:\s-\s)?/\<close>
\<close>

definition TIMESTAMP_PATTERN :: "mstate \<Rightarrow> mstate list" where
  "TIMESTAMP_PATTERN =
     rx_then (rx_plain (rx_opt (rx_cls (\<lambda>c. c = 91))))
    (rx_then (rx_group date_rx)
    (rx_then (rx_plain mid_rx)
    (rx_then (rx_group time_rx)
             (rx_plain tail_rx))))"

text \<open>
  \<open>line.match(TIMESTAMP_PATTERN)\<close>: \<open>None\<close> is \<open>null\<close>; \<open>whole\<close> is \<open>match[0]\<close>, and
  \<open>group1\<close>, \<open>group2\<close> are \<open>match[1]\<close>, \<open>match[2]\<close>.
\<close>

record ts_match =
  whole :: jstring
  group1 :: jstring
  group2 :: jstring

definition match_ts :: "jstring \<Rightarrow> ts_match option" where
  "match_ts line =
     (case TIMESTAMP_PATTERN (line, []) of
        (s', [g1, g2]) # _ \<Rightarrow> Some \<lparr>whole = captured line s', group1 = g1, group2 = g2\<rparr>
      | _ \<Rightarrow> None)"

section \<open>Parsing a date and time\<close>

datatype dateFormat = DMY | MDY | YMD

text \<open>
  \<open>parseDate\<close>; \<open>None\<close> is \<open>null\<close>. Nothing in its body throws, so the \<open>catch\<close> branch
  is not a case of its own.
\<close>

definition parseDate :: "host \<Rightarrow> jstring \<Rightarrow> jstring \<Rightarrow> dateFormat \<Rightarrow> int option" where
  "parseDate h dateStr timeStr fmt =
     (let parts = map Number (split_on (\<lambda>c. c = 47)
                    (map (\<lambda>c. if c = 45 \<or> c = 46 then 47 else c) dateStr));
          (year, month, day) =
             (case fmt of
                YMD \<Rightarrow> (num_at parts 0, num_at parts 1, num_at parts 2)
              | MDY \<Rightarrow> (num_at parts 2, num_at parts 0, num_at parts 1)
              | DMY \<Rightarrow> (num_at parts 2, num_at parts 1, num_at parts 0));
          year = (if num_lt year 100 then num_add year 2000 else year);
          timeParts = split_on (\<lambda>c. c = 58 \<or> is_ws c) (replace_first 46 58 timeStr);
          hours = str_at timeParts 0;
          minutes = str_at timeParts 1;
          lowerTime = toLowerCase timeStr;
          isPM = (str_includes lowerTime (js ''pm'') \<or> str_includes lowerTime (js ''p.m''));
          isAM = (str_includes lowerTime (js ''am'') \<or> str_includes lowerTime (js ''a.m''));
          hours = (if isPM \<and> num_lt hours 12 then num_add hours 12 else hours);
          hours = (if isAM \<and> num_eq hours 12 then Some 0 else hours)
      in new_Date h year (num_add month (- 1)) day hours minutes)"

text \<open>
  \<open>detectDateFormat\<close>: the loop over the first 50 lines, with \<open>maxFirst\<close> and
  \<open>maxSecond\<close> as accumulators; \<open>None\<close> is the exit by \<open>break\<close> with \<open>isYMD\<close> set.
\<close>

fun detect_loop :: "jstring list \<Rightarrow> rat \<Rightarrow> rat \<Rightarrow> (rat \<times> rat) option" where
  "detect_loop [] maxFirst maxSecond = Some (maxFirst, maxSecond)"
| "detect_loop (line # lines) maxFirst maxSecond =
     (case match_ts line of
        None \<Rightarrow> detect_loop lines maxFirst maxSecond
      | Some m \<Rightarrow>
          (let parts = map Number (split_on is_datesep (group1 m))
           in if num_gt (num_at parts 0) 1000 then None
              else detect_loop lines
                     (if num_gt (num_at parts 0) maxFirst then the (num_at parts 0) else maxFirst)
                     (if num_gt (num_at parts 1) maxSecond then the (num_at parts 1) else maxSecond)))"

definition detectDateFormat :: "host \<Rightarrow> jstring list \<Rightarrow> dateFormat" where
  "detectDateFormat h lines =
     (case detect_loop (take 50 lines) 0 0 of
        None \<Rightarrow> YMD
      | Some (maxFirst, maxSecond) \<Rightarrow>
          if maxFirst > 12 then DMY
          else if maxSecond > 12 then MDY
          else (let userLocale = (if language h = [] then js ''en-GB'' else language h)
                in if startsWith userLocale (js ''en-US'') then MDY else DMY))"

section \<open>The transcript parser\<close>

text \<open>
  A message. Its \<open>date\<close> is the time value of a valid \<open>Date\<close>: messages are created by
  the parser only, which creates none when \<open>parseDate\<close> has returned \<open>null\<close>.
\<close>

record message =
  date :: int
  sender :: jstring
  content :: jstring

datatype status = success | error

record ParseResult =
  messages :: "message list"
  status :: status
  error_text :: "jstring option"

text \<open>\<open>text.split(/\r?\n/)\<close>: \<open>cur\<close> is the current piece, reversed.\<close>

fun split_lines :: "jstring \<Rightarrow> jstring \<Rightarrow> jstring list" where
  "split_lines cur [] = [rev cur]"
| "split_lines cur (c # cs) =
     (if c = 10
      then rev (case cur of [] \<Rightarrow> [] | x # xs \<Rightarrow> if x = 13 then xs else x # xs) # split_lines [] cs
      else split_lines (c # cur) cs)"

text \<open>
  One line of the loop of \<open>parseChatFile\<close>. The state is the array \<open>messages\<close> and
  \<open>lastMessage\<close>, which is \<open>null\<close> (\<open>None\<close>) or refers to an element of the array, given
  here by its index: appending to \<open>lastMessage.content\<close> changes that element.
\<close>

definition parse_line :: "host \<Rightarrow> dateFormat \<Rightarrow> jstring \<Rightarrow> message list \<times> nat option
    \<Rightarrow> message list \<times> nat option" where
  "parse_line h dateFormat line st =
     (case st of (msgs, lastMessage) \<Rightarrow>
      (case match_ts line of
         Some m \<Rightarrow>
           (let dateStr = group1 m;
                timeStr = group2 m;
                remainder = drop (length (whole m)) line
            in case parseDate h dateStr timeStr dateFormat of
                 Some d \<Rightarrow>
                   (case indexOf remainder 58 of
                      Some firstColonIndex \<Rightarrow>
                        (let newMessage = \<lparr>date = d,
                               sender = trim (take firstColonIndex remainder),
                               content = trim (drop (firstColonIndex + 1) remainder)\<rparr>
                         in (msgs @ [newMessage], Some (length msgs)))
                    | None \<Rightarrow> (msgs, None))
               | None \<Rightarrow> (msgs, lastMessage))
       | None \<Rightarrow>
           (case lastMessage of
              Some i \<Rightarrow> (msgs[i := (msgs ! i)\<lparr>content := content (msgs ! i) @ [10] @ line\<rparr>],
                         lastMessage)
            | None \<Rightarrow> (msgs, lastMessage))))"

definition parse_lines :: "host \<Rightarrow> dateFormat \<Rightarrow> jstring list \<Rightarrow> message list \<times> nat option
    \<Rightarrow> message list \<times> nat option" where
  "parse_lines h dateFormat lines st = foldl (\<lambda>s line. parse_line h dateFormat line s) st lines"

text \<open>
  \<open>parseChatFile\<close>, from the text the reader delivers; \<open>None\<close> is the reader's error
  event.
\<close>

definition parseChatFile :: "host \<Rightarrow> jstring option \<Rightarrow> ParseResult" where
  "parseChatFile h file =
     (case file of
        None \<Rightarrow> \<lparr>messages = [], status = error, error_text = Some (js ''Failed to read file'')\<rparr>
      | Some text \<Rightarrow>
          if text = [] then \<lparr>messages = [], status = error, error_text = Some (js ''File is empty'')\<rparr>
          else (let cleanText = filter (\<lambda>c. c \<noteq> 8206 \<and> c \<noteq> 8207) text;
                    lines = split_lines [] cleanText;
                    dateFormat = detectDateFormat h lines
                in \<lparr>messages = fst (parse_lines h dateFormat lines ([], None)),
                    status = success, error_text = None\<rparr>))"

section \<open>Insertion-ordered maps\<close>

text \<open>
  A \<open>Map\<close> of the program iterates in the order its keys were first set; it is a list of
  key-value pairs with distinct keys. \<open>map_of\<close> is \<open>get\<close>.
\<close>

fun map_set :: "'k \<Rightarrow> 'v \<Rightarrow> ('k \<times> 'v) list \<Rightarrow> ('k \<times> 'v) list" where
  "map_set k v [] = [(k, v)]"
| "map_set k v ((k', v') # m) = (if k' = k then (k', v) # m else (k', v') # map_set k v m)"

text \<open>Changing the object stored under a key, where there is one.\<close>

fun map_upd :: "'k \<Rightarrow> ('v \<Rightarrow> 'v) \<Rightarrow> ('k \<times> 'v) list \<Rightarrow> ('k \<times> 'v) list" where
  "map_upd k f [] = []"
| "map_upd k f ((k', v') # m) = (if k' = k then (k', f v') # m else (k', v') # map_upd k f m)"

text \<open>\<open>m.set(k, (m.get(k) || 0) + 1)\<close>\<close>

definition bump :: "'k \<Rightarrow> ('k \<times> nat) list \<Rightarrow> ('k \<times> nat) list" where
  "bump k m = map_set k ((case map_of m k of None \<Rightarrow> 0 | Some c \<Rightarrow> c) + 1) m"

section \<open>The analytics engine\<close>

text \<open>
  The engine is modelled for everything it derives from the timestamps and senders of
  the messages. Its lexical statistics (the branch on media and system messages with
  the word, emoji and phrase tables, the greeting counters and the longest message)
  read \<open>msg.content\<close> and write tables and fields of their own; they are left out,
  together with the fields of the result they feed. One effect of that branch reaches
  beyond its own tables and is not covered here: \<open>wordGlobalMap\<close> is a plain object, so for
  the word \<open>constructor\<close> the lookup \<open>wordGlobalMap[w]\<close> finds the global \<open>Object\<close> of the
  prototype, and the count is written to that object (and fails there for a sender named
  like a read-only property of a function, such as \<open>name\<close>).
\<close>

record ustat =
  count :: nat
  replyTimes :: "rat list"
  oneSidedCount :: nat

record loop_state =
  userMap :: "(jstring \<times> ustat) list"
  hourlyCounts :: "nat list"
  dayOfWeekCounts :: "nat list"
  msgsPerMinute :: "(jstring \<times> nat) list"
  msgsPerHourSpecific :: "(jstring \<times> nat) list"
  dailyTotalCounts :: "(jstring \<times> nat) list"
  dailyBreakdown :: "(jstring \<times> (jstring \<times> nat) list) list"
  startersMap :: "(jstring \<times> nat) list"
  lastMsgTime :: int
  lastSender :: jstring
  dayCount :: nat
  nightCount :: nat
  maxSilenceTime :: rat
  currentBurst :: nat
  maxBurst :: nat
  burstCount :: nat

definition init_state :: loop_state where
  "init_state =
     \<lparr>userMap = [], hourlyCounts = replicate 24 0, dayOfWeekCounts = replicate 7 0,
      msgsPerMinute = [], msgsPerHourSpecific = [], dailyTotalCounts = [],
      dailyBreakdown = [], startersMap = [], lastMsgTime = 0, lastSender = [],
      dayCount = 0, nightCount = 0, maxSilenceTime = 0,
      currentBurst = 0, maxBurst = 0, burstCount = 0\<rparr>"

text \<open>The day key of a message: \<open>msg.date.toISOString().split('T')[0]\<close>.\<close>

definition dateKey :: "message \<Rightarrow> jstring" where
  "dateKey msg = hd (split_on (\<lambda>c. c = 84) (toISOString (date msg)))"

text \<open>The parts of the loop body, in the order of the source.\<close>

definition init_user :: "jstring \<Rightarrow> (jstring \<times> ustat) list \<Rightarrow> (jstring \<times> ustat) list" where
  "init_user s um =
     (if map_of um s = None then um @ [(s, \<lparr>count = 0, replyTimes = [], oneSidedCount = 0\<rparr>)]
      else um)"

definition burst_step :: "nat \<Rightarrow> int \<Rightarrow> nat \<times> nat \<times> nat \<Rightarrow> nat \<times> nat \<times> nat" where
  "burst_step index timeDiff b =
     (case b of (cur, mx, cnt) \<Rightarrow>
        if index > 0 then
          (if timeDiff < 60000 then (cur + 1, mx, cnt)
           else if cur > 5 then (1, if cur > mx then cur else mx, cnt + 1)
           else (1, mx, cnt))
        else (1, mx, cnt))"

definition reply_step :: "jstring \<Rightarrow> jstring \<Rightarrow> int \<Rightarrow> (jstring \<times> ustat) list
    \<Rightarrow> (jstring \<times> ustat) list" where
  "reply_step lastS s timeDiff um =
     (let diffMinutes = (of_int timeDiff :: rat) / (1000 * 60)
      in if lastS \<noteq> [] \<and> lastS \<noteq> s \<and> diffMinutes < 360
         then map_upd s (\<lambda>u. u\<lparr>replyTimes := replyTimes u @ [diffMinutes]\<rparr>) um
         else um)"

definition is_start :: "nat \<Rightarrow> int \<Rightarrow> bool" where
  "is_start index timeDiff = (index = 0 \<or> timeDiff > 6 * 60 * 60 * 1000)"

definition silence_step :: "nat \<Rightarrow> int \<Rightarrow> rat \<Rightarrow> rat" where
  "silence_step index timeDiff mx =
     (if is_start index timeDiff \<and> index > 0
      then (let silenceHours = (of_int timeDiff :: rat) / (1000 * 60 * 60)
            in if silenceHours > mx then silenceHours else mx)
      else mx)"

definition add_daily :: "jstring \<Rightarrow> jstring \<Rightarrow> (jstring \<times> (jstring \<times> nat) list) list
    \<Rightarrow> (jstring \<times> (jstring \<times> nat) list) list" where
  "add_daily k s db =
     map_upd k (bump s) (if map_of db k = None then db @ [(k, [])] else db)"

text \<open>
  The body of \<open>filteredMessages.forEach((msg, index) => ...)\<close>. The quotients of
  millisecond differences are exact rationals here, where the program has doubles.
\<close>

definition step :: "host \<Rightarrow> nat \<Rightarrow> message \<Rightarrow> loop_state \<Rightarrow> loop_state" where
  "step h index msg st =
     (let msgTime = date msg;
          timeDiff = msgTime - lastMsgTime st;
          um = map_upd (sender msg) (\<lambda>u. u\<lparr>count := count u + 1\<rparr>)
                 (init_user (sender msg) (userMap st));
          b = burst_step index timeDiff (currentBurst st, maxBurst st, burstCount st);
          hour = getHours h msgTime;
          isoString = toISOString msgTime;
          hourKey = take 13 isoString;
          minKey = take 16 isoString
      in \<lparr>userMap = reply_step (lastSender st) (sender msg) timeDiff um,
          hourlyCounts = (hourlyCounts st)[hour := hourlyCounts st ! hour + 1],
          dayOfWeekCounts =
            (dayOfWeekCounts st)[getDay h msgTime := dayOfWeekCounts st ! getDay h msgTime + 1],
          msgsPerMinute = bump minKey (msgsPerMinute st),
          msgsPerHourSpecific = bump hourKey (msgsPerHourSpecific st),
          dailyTotalCounts = bump (dateKey msg) (dailyTotalCounts st),
          dailyBreakdown = add_daily (dateKey msg) (sender msg) (dailyBreakdown st),
          startersMap =
            (if is_start index timeDiff then bump (sender msg) (startersMap st)
             else startersMap st),
          lastMsgTime = msgTime,
          lastSender = sender msg,
          dayCount = (if hour \<ge> 6 \<and> hour < 18 then dayCount st + 1 else dayCount st),
          nightCount = (if hour \<ge> 6 \<and> hour < 18 then nightCount st else nightCount st + 1),
          maxSilenceTime = silence_step index timeDiff (maxSilenceTime st),
          currentBurst = fst b, maxBurst = fst (snd b), burstCount = snd (snd b)\<rparr>)"

fun loop :: "host \<Rightarrow> nat \<Rightarrow> message list \<Rightarrow> loop_state \<Rightarrow> loop_state" where
  "loop h index [] st = st"
| "loop h index (msg # msgs) st = loop h (Suc index) msgs (step h index msg st)"

text \<open>
  One-sided days. The program compares the double \<open>count / totalDay\<close> with 0.75; for
  counts below \<open>2^52\<close> that is the comparison of the exact quotient.
\<close>

definition one_sided_day :: "(jstring \<times> nat) list \<Rightarrow> (jstring \<times> ustat) list
    \<Rightarrow> (jstring \<times> ustat) list" where
  "one_sided_day userCounts um =
     (let totalDay = sum_list (map snd userCounts)
      in if totalDay > 10
         then foldl (\<lambda>m (user, c).
                  if (of_nat c :: rat) / of_nat totalDay > 3 / 4
                  then map_upd user (\<lambda>u. u\<lparr>oneSidedCount := oneSidedCount u + 1\<rparr>) m
                  else m) um userCounts
         else um)"

definition one_sided_days :: "(jstring \<times> (jstring \<times> nat) list) list \<Rightarrow> (jstring \<times> ustat) list
    \<Rightarrow> (jstring \<times> ustat) list" where
  "one_sided_days db um = foldl (\<lambda>m (d, userCounts). one_sided_day userCounts m) um db"

text \<open>\<open>forEach\<close> loops that keep the first maximum.\<close>

definition max_entry :: "(jstring \<times> nat) list \<Rightarrow> jstring \<times> int \<Rightarrow> jstring \<times> int" where
  "max_entry m init =
     foldl (\<lambda>(best, mx) (k, c). if int c > mx then (k, int c) else (best, mx)) init m"

definition max_value :: "(jstring \<times> nat) list \<Rightarrow> nat" where
  "max_value m = foldl (\<lambda>mx (k, c). if c > mx then c else mx) 0 m"

definition busiest :: "nat list \<Rightarrow> nat \<times> nat" where
  "busiest cs =
     foldl (\<lambda>(bi, mx) (i, c). if c > mx then (i, c) else (bi, mx)) (0, 0)
       (zip [0..<length cs] cs)"

text \<open>\<open>Math.round\<close>: the nearest integer, halves upwards.\<close>

definition Math_round :: "rat \<Rightarrow> int" where
  "Math_round x = \<lfloor>x + 1 / 2\<rfloor>"

definition COLORS :: "jstring list" where
  "COLORS = map js [''#8b5cf6'', ''#ec4899'', ''#06b6d4'', ''#f59e0b'', ''#10b981'', ''#f43f5e'',
     ''#3b82f6'', ''#a855f7'', ''#eab308'', ''#14b8a6'', ''#6366f1'', ''#ef4444'']"

record UserStat =
  name :: jstring
  messageCount :: nat
  color :: jstring
  avgReplyTimeMinutes :: int
  oneSidedConversationsCount :: nat

text \<open>
  The user names by message count, largest first; the sort is stable, so users with equal
  counts keep the order of the map.
\<close>

definition sortedUserNames :: "(jstring \<times> ustat) list \<Rightarrow> jstring list" where
  "sortedUserNames um = sort_key (\<lambda>n. - int (count (the (map_of um n)))) (map fst um)"

definition user_stat :: "(jstring \<times> ustat) list \<Rightarrow> nat \<times> jstring \<Rightarrow> UserStat" where
  "user_stat um p =
     (case p of (index, n) \<Rightarrow>
        (let stats = the (map_of um n);
             avgReply = (if length (replyTimes stats) > 0
                         then sum_list (replyTimes stats) / of_nat (length (replyTimes stats))
                         else 0)
         in \<lparr>name = n, messageCount = count stats,
             color = COLORS ! (index mod length COLORS),
             avgReplyTimeMinutes = Math_round avgReply,
             oneSidedConversationsCount = oneSidedCount stats\<rparr>))"

definition final_users :: "(jstring \<times> ustat) list \<Rightarrow> UserStat list" where
  "final_users um =
     (let names = sortedUserNames um in map (user_stat um) (zip [0..<length names] names))"

text \<open>
  The streak over the sorted day keys; the state is \<open>(currentStreak, maxStreak,
  prevDateStr)\<close>. A comparison with NaN is false.
\<close>

definition streak_step :: "nat \<times> nat \<times> jstring \<Rightarrow> jstring \<Rightarrow> nat \<times> nat \<times> jstring" where
  "streak_step s dateStr =
     (case s of (currentStreak, maxStreak, prevDateStr) \<Rightarrow>
        (let cur =
               (if prevDateStr \<noteq> [] then
                  (case (Date_parse dateStr, Date_parse prevDateStr) of
                     (Some a, Some b) \<Rightarrow>
                       (let diff = \<lceil>(of_int \<bar>a - b\<bar> :: rat) / 86400000\<rceil>
                        in if (of_int diff :: rat) \<le> 3 / 2 then currentStreak + 1 else 1)
                   | _ \<Rightarrow> 1)
                else 1)
         in (cur, if cur > maxStreak then cur else maxStreak, dateStr)))"

definition streak :: "jstring list \<Rightarrow> nat" where
  "streak keys = fst (snd (foldl streak_step (0, 0, []) (sort keys)))"

text \<open>The decimal string of an integer, which the default \<open>sort\<close> of an array compares.\<close>

fun show_nat :: "nat \<Rightarrow> jstring" where
  "show_nat n = (if n < 10 then [48 + int n] else show_nat (n div 10) @ [48 + int (n mod 10)])"

declare show_nat.simps [simp del]

definition show_int :: "int \<Rightarrow> jstring" where
  "show_int i = (if i < 0 then 45 # show_nat (nat (- i)) else show_nat (nat i))"

definition set_of_list :: "'a list \<Rightarrow> 'a list" where
  "set_of_list xs = foldl (\<lambda>s x. if x \<in> set s then s else s @ [x]) [] xs"

record DateRange =
  range_start :: int
  range_end :: int

record ActiveDate =
  active_date :: jstring
  active_count :: nat

record HourlyActivity =
  hour :: nat
  hour_count :: nat

record RapidFire =
  maxInMinute :: nat
  maxInHour :: nat
  maxInDay :: nat

record DayNightSplit =
  day :: nat
  night :: nat

record BurstStats =
  burst_count :: nat
  burst_max :: nat

record SilenceBreaker =
  breaker_name :: jstring
  maxSilenceHours :: int

record AnalysisResult =
  totalMessages :: nat
  result_messages :: "message list"
  dateRange :: DateRange
  users :: "UserStat list"
  activeUsersCount :: nat
  longestStreak :: nat
  mostActiveDate :: ActiveDate
  busiestHour :: nat
  topStarter :: jstring
  timeline :: "unit list"
  hourlyHeatmap :: "HourlyActivity list"
  yearOptions :: "int list"
  rapidFire :: RapidFire
  dayNightSplit :: DayNightSplit
  dayOfWeekStats :: "nat list"
  burstStats :: BurstStats
  silenceBreaker :: SilenceBreaker
  silenceBreakCounts :: "(jstring \<times> nat) list"

text \<open>
  \<open>yearFilter ? messages.filter(...) : messages\<close>: an absent filter and the filter 0 are
  both falsy.
\<close>

definition filteredMessages :: "host \<Rightarrow> message list \<Rightarrow> int option \<Rightarrow> message list" where
  "filteredMessages h msgs yearFilter =
     (case yearFilter of
        None \<Rightarrow> msgs
      | Some y \<Rightarrow> if y = 0 then msgs else filter (\<lambda>m. getFullYear h (date m) = y) msgs)"

definition empty_result :: "host \<Rightarrow> AnalysisResult" where
  "empty_result h =
     \<lparr>totalMessages = 0, result_messages = [],
      dateRange = \<lparr>range_start = clock h 0, range_end = clock h 1\<rparr>,
      users = [], activeUsersCount = 0, longestStreak = 0,
      mostActiveDate = \<lparr>active_date = [], active_count = 0\<rparr>,
      busiestHour = 0, topStarter = [], timeline = [], hourlyHeatmap = [], yearOptions = [],
      rapidFire = \<lparr>maxInMinute = 0, maxInHour = 0, maxInDay = 0\<rparr>,
      dayNightSplit = \<lparr>day = 0, night = 0\<rparr>,
      dayOfWeekStats = [0, 0, 0, 0, 0, 0, 0],
      burstStats = \<lparr>burst_count = 0, burst_max = 0\<rparr>,
      silenceBreaker = \<lparr>breaker_name = [], maxSilenceHours = 0\<rparr>,
      silenceBreakCounts = []\<rparr>"

definition analyzeMessages :: "host \<Rightarrow> message list \<Rightarrow> int option \<Rightarrow> AnalysisResult" where
  "analyzeMessages h msgs yearFilter =
     (let filtered = filteredMessages h msgs yearFilter
      in if length filtered = 0 then empty_result h
         else
          (let st = loop h 0 filtered init_state;
               um = one_sided_days (dailyBreakdown st) (userMap st);
               (activeDate, maxDaily) = max_entry (dailyTotalCounts st) ([], 0);
               us = final_users um;
               top0 = (case us of [] \<Rightarrow> js ''-'' | u # _ \<Rightarrow> if name u = [] then js ''-'' else name u);
               starter = fst (max_entry (startersMap st) (top0, - 1));
               years = set_of_list (map (\<lambda>m. getFullYear h (date m)) msgs)
           in \<lparr>totalMessages = length filtered,
               result_messages = filtered,
               dateRange = \<lparr>range_start = date (hd filtered), range_end = date (last filtered)\<rparr>,
               users = us,
               activeUsersCount = length us,
               longestStreak = streak (map fst (dailyTotalCounts st)),
               mostActiveDate = \<lparr>active_date = activeDate, active_count = nat maxDaily\<rparr>,
               busiestHour = fst (busiest (hourlyCounts st)),
               topStarter = starter,
               timeline = [],
               hourlyHeatmap = map (\<lambda>(i, c). \<lparr>hour = i, hour_count = c\<rparr>)
                                 (zip [0..<length (hourlyCounts st)] (hourlyCounts st)),
               yearOptions = rev (sort_key show_int years),
               rapidFire = \<lparr>maxInMinute = max_value (msgsPerMinute st),
                             maxInHour = max_value (msgsPerHourSpecific st),
                             maxInDay = nat maxDaily\<rparr>,
               dayNightSplit = \<lparr>day = dayCount st, night = nightCount st\<rparr>,
               dayOfWeekStats = dayOfWeekCounts st,
               burstStats = \<lparr>burst_count = burstCount st, burst_max = maxBurst st\<rparr>,
               silenceBreaker = \<lparr>breaker_name = starter,
                                   maxSilenceHours = Math_round (maxSilenceTime st)\<rparr>,
               silenceBreakCounts = startersMap st\<rparr>))"

section \<open>Inputs and auxiliary functions of the properties\<close>

text \<open>A host in UTC with a British locale, for the concrete runs.\<close>

definition utc_host :: host where
  "utc_host = \<lparr>tzOffset = 0, language = js ''en-GB'', clock = (\<lambda>i. 0)\<rparr>"

text \<open>
  \<open>n\<close> messages from the alternating senders \<open>a\<close> and \<open>b\<close>, 10 seconds apart from \<open>t0\<close>
  on, with the contents \<open>c 0\<close>, \<open>c 1\<close>, ...
\<close>

definition alternating :: "int \<Rightarrow> jstring \<Rightarrow> jstring \<Rightarrow> (nat \<Rightarrow> jstring) \<Rightarrow> nat \<Rightarrow> message list" where
  "alternating t0 a b c n =
     map (\<lambda>i. \<lparr>date = t0 + 10000 * int i, sender = (if even i then a else b), content = c i\<rparr>)
       [0..<n]"

text \<open>The burst counters of the loop as a function of the timestamps alone.\<close>

fun burst_run :: "nat \<Rightarrow> int \<Rightarrow> int list \<Rightarrow> nat \<times> nat \<times> nat \<Rightarrow> nat \<times> nat \<times> nat" where
  "burst_run i lastT [] b = b"
| "burst_run i lastT (t # ts) b = burst_run (Suc i) t ts (burst_step i (t - lastT) b)"

text \<open>The message counts of a user map, and reading a counter that may be absent.\<close>

definition cnts :: "(jstring \<times> ustat) list \<Rightarrow> (jstring \<times> nat) list" where
  "cnts um = map (\<lambda>(k, u). (k, count u)) um"













text \<open>The first component \<open>parts[0]\<close> of the date token of a matched line.\<close>

definition first_component :: "ts_match \<Rightarrow> jsnum" where
  "first_component m = num_at (map Number (split_on is_datesep (group1 m))) 0"

text \<open>Three lines of a day-first transcript.\<close>

definition day_first_lines :: "jstring list" where
  "day_first_lines = [js ''03/05/23, 9:00 - Alice: hello'', js ''not a message'',
     js ''25/05/23, 9:01 - Bob: hi there'']"

text \<open>
  The grammar of a timestamp, for the properties of the pattern. \<open>first_of\<close> is the result
  a backtracking matcher takes; \<open>digit_run lo hi\<close> is a run of \<open>lo\<close> to \<open>hi\<close> digits;
  \<open>stops p r\<close> says the class \<open>p\<close> cannot go on into \<open>r\<close>. After minutes a time token may
  have seconds (a separator and two digits) and a meridiem (an optional white-space
  character and one or two letters). The two dialects close the timestamp with a bracket
  or with blank, dash, blank.
\<close>

definition first_of :: "'a list \<Rightarrow> 'a option" where
  "first_of xs = (case xs of [] \<Rightarrow> None | x # _ \<Rightarrow> Some x)"

definition digit_run :: "nat \<Rightarrow> nat \<Rightarrow> jstring \<Rightarrow> bool" where
  "digit_run lo hi ds = (list_all is_digit ds \<and> lo \<le> length ds \<and> length ds \<le> hi)"

definition stops :: "(int \<Rightarrow> bool) \<Rightarrow> jstring \<Rightarrow> bool" where
  "stops p r = (case r of [] \<Rightarrow> True | c # _ \<Rightarrow> \<not> p c)"

definition letter_run :: "jstring \<Rightarrow> bool" where
  "letter_run l = (list_all is_letter l \<and> 1 \<le> length l \<and> length l \<le> 2)"

definition seconds_part :: "jstring \<Rightarrow> bool" where
  "seconds_part secs = (case secs of [] \<Rightarrow> True | t2 # ss \<Rightarrow> is_timesep t2 \<and> digit_run 2 2 ss)"

definition meridiem_part :: "jstring \<Rightarrow> bool" where
  "meridiem_part mer =
     (case mer of [] \<Rightarrow> True
      | c # cs \<Rightarrow> if is_ws c then letter_run cs else letter_run (c # cs))"

definition bracket_sep :: jstring where
  "bracket_sep = js '']''"

definition dash_sep :: jstring where
  "dash_sep = js '' - ''"



text \<open>The transcript of two lines.\<close>

definition two_lines :: jstring where
  "two_lines = js ''12/05/23, 9:00 - Alice: hello'' @ [10] @ js ''12/05/23, 9:01 - Bob: hi there''"

text \<open>
  09:00 on 12 May 2023 and on 5 December 2023, as times in UTC: what the first line
  means in local time under the day-first and the month-first order.
\<close>

definition local_start :: "dateFormat \<Rightarrow> int" where
  "local_start fmt = (if fmt = MDY then 1701766800000 else 1683882000000)"

text \<open>The date of \<open>toISOString\<close>, from the day number.\<close>

definition date_part :: "int \<Rightarrow> jstring" where
  "date_part dy = (case civil_from_days dy of (y, m, d) \<Rightarrow> iso_year y @ [45] @ pad2 m @ [45] @ pad2 d)"


section \<open>Burst detection\<close>

lemma step_burst:
  "(currentBurst (step h i m st), maxBurst (step h i m st), burstCount (step h i m st))
     = burst_step i (date m - lastMsgTime st) (currentBurst st, maxBurst st, burstCount st)"
  by (simp add: step_def Let_def)

lemma step_lastMsgTime: "lastMsgTime (step h i m st) = date m"
  by (simp add: step_def Let_def)

lemma loop_burst:
  "(currentBurst (loop h i msgs st), maxBurst (loop h i msgs st), burstCount (loop h i msgs st))
     = burst_run i (lastMsgTime st) (map date msgs) (currentBurst st, maxBurst st, burstCount st)"
proof (induction msgs arbitrary: i st)
  case Nil
  show ?case by simp
next
  case (Cons m msgs)
  show ?case
    using Cons.IH [of "Suc i" "step h i m st"]
    by (simp only: loop.simps list.map burst_run.simps step_lastMsgTime step_burst)
qed

lemma burstStats_run:
  assumes "msgs \<noteq> []"
  shows "burstStats (analyzeMessages h msgs None)
     = \<lparr>burst_count = snd (snd (burst_run 0 0 (map date msgs) (0, 0, 0))),
         burst_max = fst (snd (burst_run 0 0 (map date msgs) (0, 0, 0)))\<rparr>"
proof -
  let ?st = "loop h 0 msgs init_state"
  have "burstStats (analyzeMessages h msgs None)
      = \<lparr>burst_count = burstCount ?st, burst_max = maxBurst ?st\<rparr>"
    using assms by (simp add: analyzeMessages_def filteredMessages_def Let_def split: prod.splits)
  moreover have "(currentBurst ?st, maxBurst ?st, burstCount ?st)
      = burst_run 0 0 (map date msgs) (0, 0, 0)"
    using loop_burst [of h 0 msgs init_state] by (simp add: init_state_def)
  ultimately show ?thesis by (metis fst_conv snd_conv)
qed

lemma upt_unfold: "[0..<6] = [0, 1, 2, 3, 4, 5]" "[0..<5] = [0, 1, 2, 3, 4]"
  by (simp_all add: upt_rec)

text \<open>
  Five messages 10 seconds apart are no burst, and six of them followed by a message
  after a gap of a minute or more are one burst of length 6.
\<close>

lemma burst_five:
  "burstStats (analyzeMessages h (alternating t0 a b c 5) None)
     = \<lparr>burst_count = 0, burst_max = 0\<rparr>"
  by (simp add: burstStats_run alternating_def upt_unfold burst_step_def)

lemma burst_six_then_gap:
  "gap \<ge> 60000 \<Longrightarrow>
   burstStats (analyzeMessages h
       (alternating t0 a b c 6 @ [\<lparr>date = t0 + 50000 + gap, sender = s, content = x\<rparr>]) None)
     = \<lparr>burst_count = 1, burst_max = 6\<rparr>"
  by (simp add: burstStats_run alternating_def upt_unfold burst_step_def)

text \<open>
  C1. For six messages from alternating senders, each 10 seconds after the one before
  and with no message after them, the claim expects \<open>burstStats.count = 1\<close> and
  \<open>burstStats.maxBurst = 6\<close>. The run is counted only when a later message arrives after
  a gap of a minute or more; nothing counts the run that is open when the loop ends, so
  \<open>analyzeMessages\<close> returns count 0 and maxBurst 0 for these six messages, whatever the
  start time, the senders, the contents and the host.
\<close>

theorem C1_trailing_burst_not_counted:
  "burstStats (analyzeMessages h (alternating t0 a b c 6) None)
     = \<lparr>burst_count = 0, burst_max = 0\<rparr>"
  by (simp add: burstStats_run alternating_def upt_unfold burst_step_def)

section \<open>Insertion-ordered maps\<close>












subsection \<open>Tallies\<close>







subsection \<open>Per-user message counts\<close>

lemma init_user_Cons:
  "init_user s ((k, u) # um) = (if k = s then (k, u) # um else (k, u) # init_user s um)"
  by (simp add: init_user_def)

lemma cnts_count_step:
  "cnts (map_upd s (\<lambda>u. u\<lparr>count := Suc (count u)\<rparr>) (init_user s um)) = bump s (cnts um)"
proof (induction um)
  case Nil
  show ?case by (simp add: init_user_def cnts_def bump_def)
next
  case (Cons p um)
  obtain k u where p: "p = (k, u)" by (cases p)
  show ?case
  proof (cases "k = s")
    case True
    then show ?thesis by (simp add: p init_user_Cons cnts_def bump_def)
  next
    case False
    then have "bump s (cnts ((k, u) # um)) = (k, count u) # bump s (cnts um)"
      by (simp add: cnts_def bump_def)
    with False Cons show ?thesis by (simp add: p init_user_Cons) (simp add: cnts_def)
  qed
qed

lemma cnts_map_upd_same:
  "(\<And>u. count (f u) = count u) \<Longrightarrow> cnts (map_upd k f um) = cnts um"
  by (induction um) (auto simp: cnts_def)

lemma cnts_reply_step: "cnts (reply_step l s d um) = cnts um"
  by (simp add: reply_step_def Let_def cnts_map_upd_same)

lemma step_cnts: "cnts (userMap (step h i m st)) = bump (sender m) (cnts (userMap st))"
  by (simp add: step_def Let_def cnts_reply_step cnts_count_step)

lemma loop_cnts:
  "cnts (userMap (loop h i msgs st)) = foldl (\<lambda>a m. bump (sender m) a) (cnts (userMap st)) msgs"
  by (induction msgs arbitrary: i st) (simp_all add: step_cnts)

lemma cnts_one_sided_day: "cnts (one_sided_day uc um) = cnts um"
proof -
  have "cnts (foldl (\<lambda>m (user, c).
                  if (of_nat c :: rat) / of_nat t > 3 / 4
                  then map_upd user (\<lambda>u. u\<lparr>oneSidedCount := oneSidedCount u + 1\<rparr>) m
                  else m) um xs) = cnts um" for t xs
    by (induction xs arbitrary: um) (auto simp: cnts_map_upd_same)
  then show ?thesis by (simp add: one_sided_day_def Let_def)
qed

lemma cnts_one_sided_days: "cnts (one_sided_days db um) = cnts um"
  unfolding one_sided_days_def
  by (induction db arbitrary: um) (auto simp: cnts_one_sided_day)







subsection \<open>Hour buckets\<close>


lemma step_hourly:
  "hourlyCounts (step h i m st)
     = (hourlyCounts st)[getHours h (date m) := hourlyCounts st ! getHours h (date m) + 1]"
  by (simp add: step_def Let_def)







section \<open>Streak\<close>

lemma step_daily:
  "dailyTotalCounts (step h i m st) = bump (dateKey m) (dailyTotalCounts st)"
  by (simp add: step_def Let_def)

lemma loop_daily:
  "dailyTotalCounts (loop h i msgs st)
     = foldl (\<lambda>a m. bump (dateKey m) a) (dailyTotalCounts st) msgs"
  by (induction msgs arbitrary: i st) (simp_all add: step_daily)





lemma longestStreak_eq:
  "filteredMessages h msgs yearFilter \<noteq> [] \<Longrightarrow>
   longestStreak (analyzeMessages h msgs yearFilter)
     = streak (map fst (dailyTotalCounts (loop h 0 (filteredMessages h msgs yearFilter) init_state)))"
  by (simp add: analyzeMessages_def Let_def split: prod.splits)



section \<open>Silence breaker\<close>













section \<open>One-sided days\<close>

subsection \<open>The per-day breakdown\<close>











subsection \<open>The pass over the days\<close>










subsection \<open>The users of the result\<close>









lemma users_eq:
  "filteredMessages h msgs yearFilter \<noteq> [] \<Longrightarrow>
   users (analyzeMessages h msgs yearFilter)
     = final_users (one_sided_days
         (dailyBreakdown (loop h 0 (filteredMessages h msgs yearFilter) init_state))
         (userMap (loop h 0 (filteredMessages h msgs yearFilter) init_state)))"
  by (simp add: analyzeMessages_def Let_def split: prod.splits)






section \<open>Date order\<close>

lemma detect_loop_max:
  assumes "\<forall>l \<in> set ls. \<forall>m. match_ts l = Some m \<longrightarrow> \<not> num_gt (first_component m) 1000"
  shows "\<exists>mf ms. detect_loop ls a b = Some (mf, ms) \<and> a \<le> mf
           \<and> (\<forall>l \<in> set ls. \<forall>m x. match_ts l = Some m \<longrightarrow> first_component m = Some x \<longrightarrow> x \<le> mf)"
  using assms
proof (induction ls arbitrary: a b)
  case Nil
  show ?case by simp
next
  case (Cons l ls)
  from Cons.prems have rest:
    "\<forall>l \<in> set ls. \<forall>m. match_ts l = Some m \<longrightarrow> \<not> num_gt (first_component m) 1000"
    by simp
  show ?case
  proof (cases "match_ts l")
    case None
    with Cons.IH [OF rest, of a b] show ?thesis by auto
  next
    case (Some m)
    let ?parts = "map Number (split_on is_datesep (group1 m))"
    let ?a = "if num_gt (num_at ?parts 0) a then the (num_at ?parts 0) else a"
    let ?b = "if num_gt (num_at ?parts 1) b then the (num_at ?parts 1) else b"
    from Cons.prems Some have small: "\<not> num_gt (num_at ?parts 0) 1000"
      by (simp add: first_component_def)
    then have step: "detect_loop (l # ls) a b = detect_loop ls ?a ?b"
      by (simp add: Some Let_def)
    have a: "a \<le> ?a" by (auto simp: num_gt_def split: option.splits)
    have fc: "x \<le> ?a" if "first_component m = Some x" for x
      using that by (auto simp: first_component_def num_gt_def)
    from Cons.IH [OF rest, of ?a ?b] obtain mf ms where
      r: "detect_loop ls ?a ?b = Some (mf, ms)" "?a \<le> mf"
      "\<forall>l \<in> set ls. \<forall>m x. match_ts l = Some m \<longrightarrow> first_component m = Some x \<longrightarrow> x \<le> mf"
      by blast
    have "\<forall>l' \<in> set (l # ls). \<forall>m x. match_ts l' = Some m \<longrightarrow> first_component m = Some x \<longrightarrow> x \<le> mf"
      using r(2,3) fc Some by (auto intro: order_trans)
    moreover have "a \<le> mf" using a r(2) by (rule order_trans)
    ultimately show ?thesis using r(1) by (simp only: step) blast
  qed
qed

text \<open>
  C5. If, among the first 50 lines, some line matching the timestamp pattern has a date
  token whose first component is greater than 12, and no such line has a first component
  greater than 1000, then \<open>detectDateFormat\<close> returns the day-first order.
\<close>

theorem C5_day_first:
  assumes "\<exists>l \<in> set (take 50 lines). \<exists>m. match_ts l = Some m \<and> num_gt (first_component m) 12"
    and "\<forall>l \<in> set (take 50 lines). \<forall>m. match_ts l = Some m \<longrightarrow> \<not> num_gt (first_component m) 1000"
  shows "detectDateFormat h lines = DMY"
proof -
  from detect_loop_max [OF assms(2), of 0 0] obtain mf ms where
    r: "detect_loop (take 50 lines) 0 0 = Some (mf, ms)"
    "\<forall>l \<in> set (take 50 lines). \<forall>m x. match_ts l = Some m \<longrightarrow> first_component m = Some x \<longrightarrow> x \<le> mf"
    by blast
  from assms(1) obtain l m where l: "l \<in> set (take 50 lines)" "match_ts l = Some m"
    "num_gt (first_component m) 12" by blast
  from l(3) obtain x where x: "first_component m = Some x" "12 < x"
    by (auto simp: num_gt_def split: option.splits)
  with r(2) l have "12 < mf" by fastforce
  then show ?thesis by (simp add: detectDateFormat_def r(1))
qed

lemma day_first_has_day:
  "match_ts (js ''25/05/23, 9:01 - Bob: hi there'')
     = Some \<lparr>whole = js ''25/05/23, 9:01 - '', group1 = js ''25/05/23'', group2 = js ''9:01''\<rparr>"
  "num_gt (first_component
      \<lparr>whole = js ''25/05/23, 9:01 - '', group1 = js ''25/05/23'', group2 = js ''9:01''\<rparr>) 12"
  by code_simp+

lemma day_first_no_year:
  "list_all (\<lambda>l. case match_ts l of None \<Rightarrow> True
                 | Some m \<Rightarrow> \<not> num_gt (first_component m) 1000) (take 50 day_first_lines)"
  by code_simp

theorem C5_day_first_witness:
  "(\<exists>l \<in> set (take 50 day_first_lines). \<exists>m. match_ts l = Some m \<and> num_gt (first_component m) 12)
   \<and> \<not> (\<exists>l \<in> set (take 50 day_first_lines). \<exists>m. match_ts l = Some m \<and> num_gt (first_component m) 1000)
   \<and> detectDateFormat utc_host day_first_lines = DMY"
proof -
  have "js ''25/05/23, 9:01 - Bob: hi there'' \<in> set (take 50 day_first_lines)"
    by (simp add: day_first_lines_def)
  with day_first_has_day
  have a: "\<exists>l \<in> set (take 50 day_first_lines). \<exists>m. match_ts l = Some m \<and> num_gt (first_component m) 12"
    by blast
  have all: "\<forall>l \<in> set (take 50 day_first_lines).
      case match_ts l of None \<Rightarrow> True | Some m \<Rightarrow> \<not> num_gt (first_component m) 1000"
    using day_first_no_year by (simp only: list_all_iff)
  have b: "\<forall>l \<in> set (take 50 day_first_lines). \<forall>m. match_ts l = Some m \<longrightarrow> \<not> num_gt (first_component m) 1000"
  proof (intro ballI allI impI)
    fix l m
    assume l: "l \<in> set (take 50 day_first_lines)" and m: "match_ts l = Some m"
    from all l
    have "case match_ts l of None \<Rightarrow> True | Some m \<Rightarrow> \<not> num_gt (first_component m) 1000"
      by (rule bspec)
    then show "\<not> num_gt (first_component m) 1000" by (simp add: m)
  qed
  have nb: "\<not> (\<exists>l \<in> set (take 50 day_first_lines). \<exists>m. match_ts l = Some m \<and> num_gt (first_component m) 1000)"
    using b by blast
  have "detectDateFormat utc_host day_first_lines = DMY" by (rule C5_day_first [OF a b])
  with a nb show ?thesis by (intro conjI)
qed

section \<open>What the timestamp pattern accepts\<close>

lemma first_of_Cons [simp]: "first_of (x # xs) = Some x"
  by (simp add: first_of_def)

lemma first_of_append: "first_of xs = Some x \<Longrightarrow> first_of (xs @ ys) = Some x"
  by (cases xs) (simp_all add: first_of_def)

lemma first_of_SomeD: "first_of xs = Some x \<Longrightarrow> \<exists>tl. xs = x # tl"
  by (cases xs) (simp_all add: first_of_def)

lemma rx_seq_first:
  "first_of (a s) = Some x \<Longrightarrow> first_of (b x) = Some y \<Longrightarrow> first_of (rx_seq a b s) = Some y"
  by (auto simp: rx_seq_def dest!: first_of_SomeD)

lemma rx_cls_hit: "p c \<Longrightarrow> rx_cls p (c # cs) = [cs]"
  by (simp add: rx_cls_def)

lemma rx_cls_stop: "stops p r \<Longrightarrow> rx_cls p r = []"
  by (cases r) (simp_all add: rx_cls_def stops_def)

lemma rx_rep_cls_first:
  assumes "list_all p xs" "m \<le> length xs" "length xs \<le> m + k" "stops p r"
  shows "first_of (rx_rep (rx_cls p) m k (xs @ r)) = Some r"
  using assms
proof (induction xs arbitrary: m k)
  case Nil
  then have m: "m = 0" by simp
  show ?case
  proof (cases k)
    case 0
    then show ?thesis by (simp add: m)
  next
    case (Suc k')
    then show ?thesis using Nil.prems(4) by (simp add: m rx_cls_stop)
  qed
next
  case (Cons x xs)
  then have x: "rx_cls p (x # xs @ r) = [xs @ r]" by (simp add: rx_cls_hit)
  show ?case
  proof (cases m)
    case (Suc m')
    with Cons.prems have "first_of (rx_rep (rx_cls p) m' k (xs @ r)) = Some r"
      by (intro Cons.IH) simp_all
    then show ?thesis by (simp add: Suc x)
  next
    case 0
    with Cons.prems obtain k' where k: "k = Suc k'" by (cases k) simp_all
    with Cons.prems 0 have "first_of (rx_rep (rx_cls p) 0 k' (xs @ r)) = Some r"
      by (intro Cons.IH) simp_all
    then show ?thesis by (simp add: 0 k x first_of_append)
  qed
qed

lemma digit_run_first:
  assumes "digit_run lo hi ds" "lo \<le> hi" "stops is_digit r"
  shows "first_of (rx_range (rx_cls is_digit) lo hi (ds @ r)) = Some r"
  unfolding rx_range_def
  using assms by (intro rx_rep_cls_first) (simp_all add: digit_run_def)

lemma sep_not_digit: "is_datesep c \<Longrightarrow> \<not> is_digit c" "is_timesep c \<Longrightarrow> \<not> is_digit c"
  by (auto simp: is_datesep_def is_timesep_def is_digit_def)

lemma cls_first: "p c \<Longrightarrow> first_of (rx_cls p (c # cs)) = Some cs"
  by (simp add: rx_cls_hit)

lemma date_rx_first:
  assumes "digit_run 1 4 c1" "is_datesep s1" "digit_run 1 2 c2" "is_datesep s2"
    "digit_run 2 4 c3" "stops is_digit r"
  shows "first_of (date_rx (c1 @ s1 # c2 @ s2 # c3 @ r)) = Some r"
proof -
  have 1: "first_of (rx_range (rx_cls is_digit) 1 4 (c1 @ s1 # c2 @ s2 # c3 @ r))
             = Some (s1 # c2 @ s2 # c3 @ r)"
    using assms(1,2) by (intro digit_run_first) (simp_all add: stops_def sep_not_digit)
  have 2: "first_of (rx_range (rx_cls is_digit) 1 2 (c2 @ s2 # c3 @ r)) = Some (s2 # c3 @ r)"
    using assms(3,4) by (intro digit_run_first) (simp_all add: stops_def sep_not_digit)
  have 3: "first_of (rx_range (rx_cls is_digit) 2 4 (c3 @ r)) = Some r"
    using assms(5,6) by (intro digit_run_first) simp_all
  let ?D = "rx_cls is_digit" and ?S = "rx_cls is_datesep"
  have 4: "first_of (rx_seq ?S (rx_range ?D 2 4) (s2 # c3 @ r)) = Some r"
    by (rule rx_seq_first [where x = "c3 @ r"]) (simp add: rx_cls_hit assms(4), rule 3)
  have 5: "first_of (rx_seq (rx_range ?D 1 2) (rx_seq ?S (rx_range ?D 2 4)) (c2 @ s2 # c3 @ r))
             = Some r"
    by (rule rx_seq_first [where x = "s2 # c3 @ r"]) (rule 2, rule 4)
  have 6: "first_of (rx_seq ?S (rx_seq (rx_range ?D 1 2) (rx_seq ?S (rx_range ?D 2 4)))
             (s1 # c2 @ s2 # c3 @ r)) = Some r"
    by (rule rx_seq_first [where x = "c2 @ s2 # c3 @ r"]) (simp add: rx_cls_hit assms(2), rule 5)
  show ?thesis
    unfolding date_rx_def
    by (rule rx_seq_first [where x = "s1 # c2 @ s2 # c3 @ r"]) (rule 1, rule 6)
qed


lemma ws_not_punct: "is_ws c \<Longrightarrow> \<not> (c = 44 \<or> c = 46)"
  by (auto simp: is_ws_def)

lemma rx_star_cls_first:
  assumes "list_all p xs" "stops p r"
  shows "first_of (rx_star_cls p (xs @ r)) = Some r"
  using assms
proof (induction xs)
  case Nil
  then show ?case by (cases r) (simp_all add: stops_def)
next
  case (Cons x xs)
  then show ?case by (simp add: first_of_append)
qed

lemma rx_plus_cls_first:
  assumes "list_all p xs" "xs \<noteq> []" "stops p r"
  shows "first_of (rx_plus_cls p (xs @ r)) = Some r"
proof -
  from assms obtain x xs' where xs: "xs = x # xs'" "p x" "list_all p xs'" by (cases xs) auto
  have "first_of (rx_seq (rx_cls p) (rx_star_cls p) (x # xs' @ r)) = Some r"
    by (rule rx_seq_first [where x = "xs' @ r"])
       (simp add: rx_cls_hit xs(2), rule rx_star_cls_first [OF xs(3) assms(3)])
  then show ?thesis by (simp add: rx_plus_cls_def xs)
qed

lemma rx_opt_hit: "first_of (a s) = Some x \<Longrightarrow> first_of (rx_opt a s) = Some x"
  by (simp add: rx_opt_def first_of_append)

lemma rx_opt_miss: "a s = [] \<Longrightarrow> first_of (rx_opt a s) = Some s"
  by (simp add: rx_opt_def)

lemma mid_rx_first:
  assumes "punct = [] \<or> punct = [44] \<or> punct = [46]" "list_all is_ws ws" "ws \<noteq> []"
    "stops is_ws r"
  shows "first_of (mid_rx (punct @ ws @ r)) = Some r"
proof -
  let ?P = "rx_cls (\<lambda>c. c = 44 \<or> c = 46)"
  have plus: "first_of (rx_plus_cls is_ws (ws @ r)) = Some r"
    by (rule rx_plus_cls_first [OF assms(2,3,4)])
  have "first_of (rx_opt ?P (punct @ ws @ r)) = Some (ws @ r)"
  proof (cases "punct = []")
    case True
    from assms(2,3) obtain w ws' where "ws = w # ws'" "is_ws w" by (cases ws) auto
    then have "?P (ws @ r) = []" using ws_not_punct [of w] by (simp add: rx_cls_def)
    then show ?thesis by (simp add: True rx_opt_miss)
  next
    case False
    with assms(1) obtain c where "punct = [c]" "c = 44 \<or> c = 46" by auto
    then show ?thesis by (simp add: rx_opt_hit rx_cls_hit)
  qed
  then show ?thesis
    unfolding mid_rx_def by (rule rx_seq_first [where x = "ws @ r"]) (rule plus)
qed


lemma rx_rep_cls_fail: "stops p s \<Longrightarrow> rx_rep (rx_cls p) (Suc m) k s = []"
  by (simp add: rx_cls_stop)

lemma rx_then_first:
  "first_of (a st) = Some x \<Longrightarrow> first_of (b x) = Some y \<Longrightarrow> first_of (rx_then a b st) = Some y"
  by (auto simp: rx_then_def dest!: first_of_SomeD)

lemma rx_plain_first:
  "first_of (a s) = Some s' \<Longrightarrow> first_of (rx_plain a (s, g)) = Some (s', g)"
  by (auto simp: rx_plain_def dest!: first_of_SomeD)

lemma rx_group_first:
  "first_of (a (d @ r)) = Some r \<Longrightarrow> first_of (rx_group a (d @ r, g)) = Some (r, g @ [d])"
  by (auto simp: rx_group_def captured_def dest!: first_of_SomeD)

lemma rx_opt_some: "\<exists>x. first_of (rx_opt a s) = Some x"
  by (cases "a s") (simp_all add: rx_opt_def)

lemma tail_rx_some: "\<exists>x. first_of (tail_rx r) = Some x"
proof -
  obtain x where x: "first_of (rx_opt (rx_cls (\<lambda>c. c = 93)) r) = Some x"
    using rx_opt_some by blast
  obtain y where y: "first_of (rx_opt (rx_seq (rx_cls is_ws) (rx_seq (rx_cls (\<lambda>c. c = 45))
                           (rx_cls is_ws))) x) = Some y"
    using rx_opt_some by blast
  have "first_of (tail_rx r) = Some y"
    unfolding tail_rx_def by (rule rx_seq_first [where x = x]) (rule x, rule y)
  then show ?thesis ..
qed

text \<open>What follows the time token: a closing bracket, or a blank and a dash.\<close>

lemma letter_not_ws: "is_letter c \<Longrightarrow> \<not> is_ws c"
  by (auto simp: is_letter_def is_ws_def)

lemma letter_not_digit: "is_letter c \<Longrightarrow> \<not> is_digit c"
  by (auto simp: is_letter_def is_digit_def)

lemma letter_not_timesep: "is_letter c \<Longrightarrow> \<not> is_timesep c"
  by (auto simp: is_letter_def is_timesep_def)

lemma ws_not_digit: "is_ws c \<Longrightarrow> \<not> is_digit c"
  by (auto simp: is_ws_def is_digit_def)

lemma ws_not_timesep: "is_ws c \<Longrightarrow> \<not> is_timesep c"
  by (auto simp: is_ws_def is_timesep_def)

lemma ws_not_letter: "is_ws c \<Longrightarrow> \<not> is_letter c"
  by (auto simp: is_ws_def is_letter_def)

lemma sep_start:
  assumes "sep = bracket_sep \<or> sep = dash_sep"
  shows "stops is_letter (sep @ rest)" "stops is_digit (sep @ rest)" "stops is_timesep (sep @ rest)"
    "rx_seq (rx_opt (rx_cls is_ws)) (rx_range (rx_cls is_letter) 1 2) (sep @ rest) = []"
  using assms
  by (auto simp: bracket_sep_def dash_sep_def js_def stops_def is_letter_def is_digit_def
      is_timesep_def is_ws_def rx_seq_def rx_opt_def rx_cls_def rx_range_def)

lemma meridiem_first:
  assumes "meridiem_part mer" "sep = bracket_sep \<or> sep = dash_sep"
  shows "first_of (rx_opt (rx_seq (rx_opt (rx_cls is_ws)) (rx_range (rx_cls is_letter) 1 2))
                    (mer @ sep @ rest)) = Some (sep @ rest)"
proof (cases mer)
  case Nil
  have "first_of (rx_opt (rx_seq (rx_opt (rx_cls is_ws)) (rx_range (rx_cls is_letter) 1 2))
                    (sep @ rest)) = Some (sep @ rest)"
    by (rule rx_opt_miss) (rule sep_start(4) [OF assms(2)])
  then show ?thesis by (simp only: Nil append_Nil)
next
  case (Cons c cs)
  have run: "first_of (rx_range (rx_cls is_letter) 1 2 (l @ sep @ rest)) = Some (sep @ rest)"
    if "letter_run l" for l
    unfolding rx_range_def using that sep_start(1) [OF assms(2), of rest]
    by (intro rx_rep_cls_first) (simp_all add: letter_run_def)
  show ?thesis
  proof (cases "is_ws c")
    case True
    with assms(1) Cons have l: "letter_run cs" by (simp add: meridiem_part_def)
    have "first_of (rx_opt (rx_cls is_ws) (c # cs @ sep @ rest)) = Some (cs @ sep @ rest)"
      using True by (simp add: rx_opt_hit rx_cls_hit)
    then have "first_of (rx_seq (rx_opt (rx_cls is_ws)) (rx_range (rx_cls is_letter) 1 2)
                 (c # cs @ sep @ rest)) = Some (sep @ rest)"
      by (rule rx_seq_first) (rule run [OF l])
    then show ?thesis unfolding Cons append_Cons by (rule rx_opt_hit)
  next
    case False
    with assms(1) Cons have l: "letter_run (c # cs)" by (simp add: meridiem_part_def)
    have "first_of (rx_opt (rx_cls is_ws) (c # cs @ sep @ rest)) = Some (c # cs @ sep @ rest)"
      using False by (simp add: rx_opt_miss rx_cls_def)
    then have "first_of (rx_seq (rx_opt (rx_cls is_ws)) (rx_range (rx_cls is_letter) 1 2)
                 (c # cs @ sep @ rest)) = Some (sep @ rest)"
      by (rule rx_seq_first) (use run [OF l] in \<open>simp only: append_Cons\<close>)
    then show ?thesis unfolding Cons append_Cons by (rule rx_opt_hit)
  qed
qed

lemma meridiem_stops:
  assumes "meridiem_part mer" "sep = bracket_sep \<or> sep = dash_sep"
  shows "stops is_digit (mer @ sep @ rest)" "stops is_timesep (mer @ sep @ rest)"
proof -
  show "stops is_digit (mer @ sep @ rest)"
  proof (cases mer)
    case Nil
    then show ?thesis using sep_start(2) [OF assms(2)] by simp
  next
    case (Cons c cs)
    with assms(1) have "is_ws c \<or> is_letter c"
      by (auto simp: meridiem_part_def letter_run_def split: if_splits)
    then show ?thesis using ws_not_digit letter_not_digit by (auto simp: Cons stops_def)
  qed
  show "stops is_timesep (mer @ sep @ rest)"
  proof (cases mer)
    case Nil
    then show ?thesis using sep_start(3) [OF assms(2)] by simp
  next
    case (Cons c cs)
    with assms(1) have "is_ws c \<or> is_letter c"
      by (auto simp: meridiem_part_def letter_run_def split: if_splits)
    then show ?thesis using ws_not_timesep letter_not_timesep by (auto simp: Cons stops_def)
  qed
qed

lemma seconds_first:
  assumes "seconds_part secs" "meridiem_part mer" "sep = bracket_sep \<or> sep = dash_sep"
  shows "first_of (rx_opt (rx_seq (rx_cls is_timesep) (rx_range (rx_cls is_digit) 2 2))
                    (secs @ mer @ sep @ rest)) = Some (mer @ sep @ rest)"
proof (cases secs)
  case Nil
  have "rx_cls is_timesep (mer @ sep @ rest) = []"
    by (rule rx_cls_stop) (rule meridiem_stops(2) [OF assms(2,3)])
  then show ?thesis by (simp add: Nil rx_opt_miss rx_seq_def)
next
  case (Cons t2 ss)
  with assms(1) have t2: "is_timesep t2" and ss: "digit_run 2 2 ss"
    by (simp_all add: seconds_part_def)
  have "first_of (rx_range (rx_cls is_digit) 2 2 (ss @ mer @ sep @ rest)) = Some (mer @ sep @ rest)"
    using ss meridiem_stops(1) [OF assms(2,3)] by (intro digit_run_first) simp_all
  then have "first_of (rx_seq (rx_cls is_timesep) (rx_range (rx_cls is_digit) 2 2)
               (t2 # ss @ mer @ sep @ rest)) = Some (mer @ sep @ rest)"
    by (intro rx_seq_first [where x = "ss @ mer @ sep @ rest"]) (simp_all add: rx_cls_hit t2)
  then show ?thesis by (simp add: Cons rx_opt_hit)
qed

lemma seconds_stops:
  assumes "seconds_part secs" "meridiem_part mer" "sep = bracket_sep \<or> sep = dash_sep"
  shows "stops is_digit (secs @ mer @ sep @ rest)"
proof (cases secs)
  case Nil
  then show ?thesis using meridiem_stops(1) [OF assms(2,3)] by simp
next
  case (Cons t2 ss)
  with assms(1) have "is_timesep t2" by (simp add: seconds_part_def)
  then show ?thesis by (simp add: Cons stops_def sep_not_digit)
qed

lemma time_rx_first:
  assumes "digit_run 1 2 hh" "is_timesep t1" "digit_run 2 2 mm" "seconds_part secs"
    "meridiem_part mer" "sep = bracket_sep \<or> sep = dash_sep"
  shows "first_of (time_rx (hh @ t1 # mm @ secs @ mer @ sep @ rest)) = Some (sep @ rest)"
proof -
  let ?D = "rx_cls is_digit" and ?T = "rx_cls is_timesep"
  let ?M = "rx_opt (rx_seq (rx_opt (rx_cls is_ws)) (rx_range (rx_cls is_letter) 1 2))"
  let ?S = "rx_opt (rx_seq ?T (rx_range ?D 2 2))"
  have 1: "first_of (rx_seq ?S ?M (secs @ mer @ sep @ rest)) = Some (sep @ rest)"
    by (rule rx_seq_first [where x = "mer @ sep @ rest"])
       (rule seconds_first [OF assms(4,5,6)], rule meridiem_first [OF assms(5,6)])
  have "first_of (rx_range ?D 2 2 (mm @ secs @ mer @ sep @ rest)) = Some (secs @ mer @ sep @ rest)"
    using assms(3) seconds_stops [OF assms(4,5,6)] by (intro digit_run_first) simp_all
  then have 2: "first_of (rx_seq (rx_range ?D 2 2) (rx_seq ?S ?M) (mm @ secs @ mer @ sep @ rest))
      = Some (sep @ rest)"
    by (rule rx_seq_first) (rule 1)
  have 3: "first_of (rx_seq ?T (rx_seq (rx_range ?D 2 2) (rx_seq ?S ?M))
             (t1 # mm @ secs @ mer @ sep @ rest)) = Some (sep @ rest)"
    by (rule rx_seq_first [where x = "mm @ secs @ mer @ sep @ rest"])
       (simp add: rx_cls_hit assms(2), rule 2)
  have "first_of (rx_range ?D 1 2 (hh @ t1 # mm @ secs @ mer @ sep @ rest))
      = Some (t1 # mm @ secs @ mer @ sep @ rest)"
    using assms(1,2) by (intro digit_run_first) (simp_all add: stops_def sep_not_digit)
  then show ?thesis
    unfolding time_rx_def by (rule rx_seq_first) (rule 3)
qed


lemma digit_not_ws: "is_digit c \<Longrightarrow> \<not> is_ws c"
  by (auto simp: is_digit_def is_ws_def)

text \<open>
  C8, as amended. A line matches the pattern, and the two groups capture exactly the
  date token and the time token, whenever it consists of: an optional opening bracket; a
  date token of 1 to 4 digits, a separator from \<open>/ . -\<close>, 1 to 2 digits, a separator, and
  2 to 4 digits; an optional comma or dot and at least one white-space character; a time
  token (1 to 2 digits, \<open>:\<close> or \<open>.\<close>, two digits, optional seconds, optional meridiem); one
  of the two dialect separators; and any remainder.
\<close>

theorem C8_timestamp_groups:
  assumes "digit_run 1 4 c1" "is_datesep s1" "digit_run 1 2 c2" "is_datesep s2" "digit_run 2 4 c3"
    and "pre = [] \<or> pre = js ''[''"
    and "punct = [] \<or> punct = js '','' \<or> punct = js ''.''"
    and "list_all is_ws ws" "ws \<noteq> []"
    and "digit_run 1 2 hh" "is_timesep t1" "digit_run 2 2 mm" "seconds_part secs"
      "meridiem_part mer"
    and "sep = bracket_sep \<or> sep = dash_sep"
  shows "\<exists>m. match_ts (pre @ (c1 @ s1 # c2 @ s2 # c3) @ punct @ ws
                       @ (hh @ t1 # mm @ secs @ mer) @ sep @ rest) = Some m
             \<and> group1 m = c1 @ s1 # c2 @ s2 # c3
             \<and> group2 m = hh @ t1 # mm @ secs @ mer"
proof -
  let ?d = "c1 @ s1 # c2 @ s2 # c3" and ?t = "hh @ t1 # mm @ secs @ mer"
  let ?r4 = "sep @ rest"
  let ?r3 = "?t @ ?r4"
  let ?r2 = "punct @ ws @ ?r3"
  let ?r1 = "?d @ ?r2"
  let ?line = "pre @ ?r1"
  from assms(1) obtain x c1' where c1: "c1 = x # c1'" "is_digit x"
    by (cases c1) (auto simp: digit_run_def)
  from assms(10) obtain y hh' where hh: "hh = y # hh'" "is_digit y"
    by (cases hh) (auto simp: digit_run_def)
  from assms(8,9) obtain w ws' where ws: "ws = w # ws'" "is_ws w" by (cases ws) auto
  have p: "punct = [] \<or> punct = [44] \<or> punct = [46]"
    using assms(7) by (simp add: js_def)
  have s2: "stops is_digit ?r2"
    using p ws ws_not_digit [of w] by (auto simp: stops_def is_digit_def)
  have s3: "stops is_ws ?r3"
    using hh digit_not_ws [of y] by (simp add: stops_def)
  have "first_of (rx_opt (rx_cls (\<lambda>c. c = 91)) ?line) = Some ?r1"
  proof (cases "pre = []")
    case True
    have "x \<noteq> 91" using c1(2) by (auto simp: is_digit_def)
    then have "rx_cls (\<lambda>c. c = 91) ?r1 = []" by (simp add: c1 rx_cls_def)
    then show ?thesis by (simp only: True append_Nil rx_opt_miss)
  next
    case False
    with assms(6) have "pre = [91]" by (simp add: js_def)
    then show ?thesis by (simp add: rx_opt_hit rx_cls_hit)
  qed
  then have 1: "first_of (rx_plain (rx_opt (rx_cls (\<lambda>c. c = 91))) (?line, [])) = Some (?r1, [])"
    by (rule rx_plain_first)
  have "first_of (date_rx (c1 @ s1 # c2 @ s2 # c3 @ ?r2)) = Some ?r2"
    by (rule date_rx_first [OF assms(1-5) s2])
  then have "first_of (date_rx (?d @ ?r2)) = Some ?r2" by simp
  then have 2: "first_of (rx_group date_rx (?r1, [])) = Some (?r2, [] @ [?d])"
    by (rule rx_group_first)
  have "first_of (mid_rx ?r2) = Some ?r3"
    by (rule mid_rx_first [OF p assms(8,9) s3])
  then have 3: "first_of (rx_plain mid_rx (?r2, [?d])) = Some (?r3, [?d])"
    by (rule rx_plain_first)
  have "first_of (time_rx (hh @ t1 # mm @ secs @ mer @ sep @ rest)) = Some ?r4"
    by (rule time_rx_first [OF assms(10-15)])
  then have "first_of (time_rx (?t @ ?r4)) = Some ?r4" by simp
  then have 4: "first_of (rx_group time_rx (?r3, [?d])) = Some (?r4, [?d] @ [?t])"
    by (rule rx_group_first)
  obtain s' where "first_of (tail_rx ?r4) = Some s'" using tail_rx_some by blast
  then have 5: "first_of (rx_plain tail_rx (?r4, [?d, ?t])) = Some (s', [?d, ?t])"
    by (rule rx_plain_first)
  have 45: "first_of (rx_then (rx_group time_rx) (rx_plain tail_rx) (?r3, [?d])) = Some (s', [?d, ?t])"
    by (rule rx_then_first [where x = "(?r4, [?d, ?t])"]) (use 4 in simp, rule 5)
  have 345: "first_of (rx_then (rx_plain mid_rx) (rx_then (rx_group time_rx) (rx_plain tail_rx))
               (?r2, [?d])) = Some (s', [?d, ?t])"
    by (rule rx_then_first [where x = "(?r3, [?d])"]) (rule 3, rule 45)
  have 2345: "first_of (rx_then (rx_group date_rx) (rx_then (rx_plain mid_rx)
               (rx_then (rx_group time_rx) (rx_plain tail_rx))) (?r1, [])) = Some (s', [?d, ?t])"
    by (rule rx_then_first [where x = "(?r2, [?d])"]) (use 2 in simp, rule 345)
  have "first_of (TIMESTAMP_PATTERN (?line, [])) = Some (s', [?d, ?t])"
    unfolding TIMESTAMP_PATTERN_def
    by (rule rx_then_first [where x = "(?r1, [])"]) (rule 1, rule 2345)
  then obtain tl where "TIMESTAMP_PATTERN (?line, []) = (s', [?d, ?t]) # tl"
    by (auto dest: first_of_SomeD)
  then have "match_ts ?line = Some \<lparr>whole = captured ?line s', group1 = ?d, group2 = ?t\<rparr>"
    by (simp add: match_ts_def)
  then show ?thesis by simp
qed


theorem C8_timestamp_groups_witness:
  "\<exists>m. match_ts (js ''[12.05.2023, 9:00:15 PM] Alice: hello'') = Some m
       \<and> group1 m = js ''12.05.2023'' \<and> group2 m = js ''9:00:15 PM''"
proof -
  have "digit_run 1 4 (js ''12'')" "is_datesep 46" "digit_run 1 2 (js ''05'')" "is_datesep 46"
    "digit_run 2 4 (js ''2023'')" "js ''['' = [] \<or> js ''['' = js ''[''"
    "js '','' = [] \<or> js '','' = js '','' \<or> js '','' = js ''.''"
    "list_all is_ws (js '' '')" "js '' '' \<noteq> []"
    "digit_run 1 2 (js ''9'')" "is_timesep 58" "digit_run 2 2 (js ''00'')"
    "seconds_part (js '':15'')" "meridiem_part (js '' PM'')"
    "bracket_sep = bracket_sep \<or> bracket_sep = dash_sep"
    by (simp_all add: digit_run_def is_datesep_def is_timesep_def is_digit_def is_ws_def
        is_letter_def seconds_part_def meridiem_part_def letter_run_def js_def)
  from C8_timestamp_groups [where ?c1.0 = "js ''12''" and ?s1.0 = 46 and ?c2.0 = "js ''05''"
      and ?s2.0 = 46 and ?c3.0 = "js ''2023''" and pre = "js ''[''" and punct = "js '',''"
      and ws = "js '' ''" and hh = "js ''9''" and ?t1.0 = 58 and mm = "js ''00''"
      and secs = "js '':15''" and mer = "js '' PM''" and sep = bracket_sep
      and rest = "js '' Alice: hello''", OF this]
  show ?thesis by (simp add: js_def bracket_sep_def)
qed

text \<open>
  C8, as stated, lets each of the three date components have 1 to 4 digits. A second
  component of three digits, or a third component of one digit, does not match.
\<close>

theorem C8_counterexample:
  "digit_run 1 4 (js ''1'') \<and> digit_run 1 4 (js ''123'') \<and> digit_run 1 4 (js ''2023'')
   \<and> match_ts (js ''1/123/2023, 9:00 - Alice: hello'') = None
   \<and> digit_run 1 4 (js ''12'') \<and> digit_run 1 4 (js ''05'') \<and> digit_run 1 4 (js ''3'')
   \<and> match_ts (js ''12/05/3, 9:00 - Alice: hello'') = None"
  by code_simp

section \<open>Lines with a timestamp and no date\<close>




section \<open>The two-line chat\<close>

subsection \<open>Parsing under any time zone\<close>

lemma new_Date_shift:
  assumes "new_Date utc_host y mo d hh mi = Some L"
  shows "new_Date h y mo d hh mi = TimeClip (L - tzOffset h)"
  using assms
  by (auto simp: new_Date_def Let_def UTC_def utc_host_def TimeClip_def
      split: option.splits if_splits)

lemma parseDate_shift:
  assumes "parseDate utc_host dateStr timeStr fmt = Some L"
  shows "parseDate h dateStr timeStr fmt = TimeClip (L - tzOffset h)"
  using assms unfolding parseDate_def Let_def
  by (auto split: prod.splits intro: new_Date_shift)

lemma TimeClip_small: "\<bar>t\<bar> \<le> 8640000000000000 \<Longrightarrow> TimeClip t = Some t"
  by (simp add: TimeClip_def)

lemma two_lines_split:
  "split_lines [] (filter (\<lambda>c. c \<noteq> 8206 \<and> c \<noteq> 8207) two_lines)
     = [js ''12/05/23, 9:00 - Alice: hello'', js ''12/05/23, 9:01 - Bob: hi there'']"
  by code_simp

lemma two_lines_detect:
  "detect_loop [js ''12/05/23, 9:00 - Alice: hello'', js ''12/05/23, 9:01 - Bob: hi there''] 0 0
     = Some (12, 5)"
  by code_simp

lemma two_lines_format:
  "detectDateFormat h [js ''12/05/23, 9:00 - Alice: hello'', js ''12/05/23, 9:01 - Bob: hi there'']
     = DMY
   \<or> detectDateFormat h [js ''12/05/23, 9:00 - Alice: hello'', js ''12/05/23, 9:01 - Bob: hi there'']
     = MDY"
proof -
  have t: "take 50 [js ''12/05/23, 9:00 - Alice: hello'', js ''12/05/23, 9:01 - Bob: hi there'']
      = [js ''12/05/23, 9:00 - Alice: hello'', js ''12/05/23, 9:01 - Bob: hi there'']"
    by simp
  show ?thesis unfolding detectDateFormat_def t two_lines_detect by (simp add: Let_def)
qed

lemma two_lines_match:
  "match_ts (js ''12/05/23, 9:00 - Alice: hello'')
     = Some \<lparr>whole = js ''12/05/23, 9:00 - '', group1 = js ''12/05/23'', group2 = js ''9:00''\<rparr>"
  "match_ts (js ''12/05/23, 9:01 - Bob: hi there'')
     = Some \<lparr>whole = js ''12/05/23, 9:01 - '', group1 = js ''12/05/23'', group2 = js ''9:01''\<rparr>"
  by code_simp+

lemma two_lines_dates:
  "parseDate utc_host (js ''12/05/23'') (js ''9:00'') DMY = Some 1683882000000"
  "parseDate utc_host (js ''12/05/23'') (js ''9:01'') DMY = Some 1683882060000"
  "parseDate utc_host (js ''12/05/23'') (js ''9:00'') MDY = Some 1701766800000"
  "parseDate utc_host (js ''12/05/23'') (js ''9:01'') MDY = Some 1701766860000"
  by code_simp+

lemma two_lines_rest:
  "indexOf (drop (length (js ''12/05/23, 9:00 - '')) (js ''12/05/23, 9:00 - Alice: hello'')) 58 = Some 5"
  "trim (take 5 (drop (length (js ''12/05/23, 9:00 - '')) (js ''12/05/23, 9:00 - Alice: hello''))) = js ''Alice''"
  "trim (drop (5 + 1) (drop (length (js ''12/05/23, 9:00 - '')) (js ''12/05/23, 9:00 - Alice: hello''))) = js ''hello''"
  "indexOf (drop (length (js ''12/05/23, 9:01 - '')) (js ''12/05/23, 9:01 - Bob: hi there'')) 58 = Some 3"
  "trim (take 3 (drop (length (js ''12/05/23, 9:01 - '')) (js ''12/05/23, 9:01 - Bob: hi there''))) = js ''Bob''"
  "trim (drop (3 + 1) (drop (length (js ''12/05/23, 9:01 - '')) (js ''12/05/23, 9:01 - Bob: hi there''))) = js ''hi there''"
  by code_simp+

lemma parse_line_message:
  assumes "match_ts line = Some m"
    and "parseDate h (group1 m) (group2 m) fmt = Some d"
    and "indexOf (drop (length (whole m)) line) 58 = Some i"
  shows "parse_line h fmt line (msgs, l)
     = (msgs @ [\<lparr>date = d, sender = trim (take i (drop (length (whole m)) line)),
                  content = trim (drop (i + 1) (drop (length (whole m)) line))\<rparr>],
        Some (length msgs))"
  using assms by (simp add: parse_line_def Let_def)

lemma two_lines_parsed:
  assumes "\<bar>tzOffset h\<bar> \<le> 86400000"
  shows "\<exists>fmt. messages (parseChatFile h (Some two_lines))
     = [\<lparr>date = local_start fmt - tzOffset h, sender = js ''Alice'', content = js ''hello''\<rparr>,
        \<lparr>date = local_start fmt + 60000 - tzOffset h, sender = js ''Bob'', content = js ''hi there''\<rparr>]"
proof -
  let ?l1 = "js ''12/05/23, 9:00 - Alice: hello''" and ?l2 = "js ''12/05/23, 9:01 - Bob: hi there''"
  let ?fmt = "detectDateFormat h [?l1, ?l2]"
  have ne: "two_lines \<noteq> []" by (simp add: two_lines_def js_def)
  have p: "messages (parseChatFile h (Some two_lines))
      = fst (parse_line h ?fmt ?l2 (parse_line h ?fmt ?l1 ([], None)))"
    by (simp add: parseChatFile_def ne two_lines_split Let_def parse_lines_def)
  have clip: "TimeClip (L - tzOffset h) = Some (L - tzOffset h)"
    if "L = 1683882000000 \<or> L = 1683882060000 \<or> L = 1701766800000 \<or> L = 1701766860000" for L
    using that assms by (intro TimeClip_small) auto
  have d1: "parseDate h (js ''12/05/23'') (js ''9:00'') ?fmt = Some (local_start ?fmt - tzOffset h)"
    using two_lines_format [of h]
    by (auto simp: local_start_def parseDate_shift [OF two_lines_dates(1)]
        parseDate_shift [OF two_lines_dates(3)] clip)
  have d2: "parseDate h (js ''12/05/23'') (js ''9:01'') ?fmt
      = Some (local_start ?fmt + 60000 - tzOffset h)"
    using two_lines_format [of h]
    by (auto simp: local_start_def parseDate_shift [OF two_lines_dates(2)]
        parseDate_shift [OF two_lines_dates(4)] clip)
  have s1: "parse_line h ?fmt ?l1 ([], None)
      = ([\<lparr>date = local_start ?fmt - tzOffset h, sender = js ''Alice'', content = js ''hello''\<rparr>], Some 0)"
    using parse_line_message [OF two_lines_match(1), of h ?fmt _ 5 "[]" None] d1 two_lines_rest(1-3)
    by simp
  have s2: "parse_line h ?fmt ?l2 ([m], Some 0)
      = ([m, \<lparr>date = local_start ?fmt + 60000 - tzOffset h, sender = js ''Bob'',
               content = js ''hi there''\<rparr>], Some 1)" for m
    using parse_line_message [OF two_lines_match(2), of h ?fmt _ 3 "[m]" "Some 0"] d2 two_lines_rest(4-6)
    by simp
  show ?thesis by (rule exI [where x = ?fmt]) (simp add: p s1 s2)
qed


subsection \<open>Day keys\<close>

lemma split_on_ne: "split_on p xs \<noteq> []"
  by (induction xs) (auto split: list.splits)

lemma split_on_hd:
  "\<forall>x \<in> set xs. \<not> p x \<Longrightarrow> p c \<Longrightarrow> hd (split_on p (xs @ c # ys)) = xs"
proof (induction xs)
  case Nil
  then show ?case by simp
next
  case (Cons x xs)
  then have "hd (split_on p (xs @ c # ys)) = xs" by simp
  moreover obtain z zs where "split_on p (xs @ c # ys) = z # zs"
    using split_on_ne [of p "xs @ c # ys"] by (cases "split_on p (xs @ c # ys)") auto
  ultimately show ?case using Cons.prems by simp
qed

lemma digit_lt: "(n :: int) mod 10 < 36"
  by (rule less_trans [of _ 10]) simp_all

lemma pad2_chars: "\<forall>c \<in> set (pad2 n). c < 84"
  by (simp add: pad2_def digit_lt)

lemma pad3_chars: "\<forall>c \<in> set (pad3 n). c < 84"
  using pad2_chars [of n] by (simp add: pad3_def digit_lt)

lemma pad4_chars: "\<forall>c \<in> set (pad4 n). c < 84"
  using pad3_chars [of n] by (simp add: pad4_def digit_lt)

lemma pad6_chars: "\<forall>c \<in> set (pad6 n). c < 84"
  using pad4_chars [of n] by (simp add: pad6_def digit_lt)

lemma iso_year_chars: "\<forall>c \<in> set (iso_year y). c < 84"
  using pad4_chars [of y] pad6_chars [of y] pad6_chars [of "- y"]
  by (simp add: iso_year_def)

lemma dateKey_Day: "dateKey m = date_part (Day (date m))"
proof -
  obtain y mo d where c: "civil_from_days (Day (date m)) = (y, mo, d)"
    by (cases "civil_from_days (Day (date m))")
  let ?X = "iso_year y @ [45] @ pad2 mo @ [45] @ pad2 d"
  have x: "\<forall>c \<in> set ?X. \<not> c = 84"
    using iso_year_chars [of y] pad2_chars [of mo] pad2_chars [of d] by auto
  have "\<exists>ys. toISOString (date m) = ?X @ 84 # ys"
    by (simp add: toISOString_def c Let_def)
  then obtain ys where "toISOString (date m) = ?X @ 84 # ys" ..
  then have "dateKey m = ?X"
    using split_on_hd [OF x, of 84 ys] by (simp add: dateKey_def)
  then show ?thesis by (simp add: date_part_def c)
qed

lemma same_day_quarter:
  fixes a :: int
  assumes "a mod 900000 = 0"
  shows "(a + 60000) div 86400000 = a div 86400000"
proof -
  from assms have "900000 dvd a" by (rule mod_0_imp_dvd)
  then obtain k where a: "a = 900000 * k" by (elim dvdE)
  have "(a + 60000) div 900000 = k" by (simp add: a)
  then have "(a + 60000) div 86400000 = k div 96"
    using zdiv_zmult2_eq [of 96 "a + 60000" 900000] by simp
  moreover have "a div 86400000 = k div 96"
    using zdiv_zmult2_eq [of 96 a 900000] by (simp add: a)
  ultimately show ?thesis by simp
qed


subsection \<open>Analysing two messages of one day\<close>

lemma step_maxSilence:
  "maxSilenceTime (step h i m st) = silence_step i (date m - lastMsgTime st) (maxSilenceTime st)"
  by (simp add: step_def Let_def)

lemma loop_hourly_fold:
  "hourlyCounts (loop h i msgs st)
     = foldl (\<lambda>a hr. a[hr := a ! hr + 1]) (hourlyCounts st) (map (\<lambda>m. getHours h (date m)) msgs)"
  by (induction msgs arbitrary: i st) (simp_all add: step_hourly)

lemma Math_round_zero: "Math_round 0 = 0"
  by code_simp

lemma busiest_nine:
  "fst (busiest (foldl (\<lambda>a hr. a[hr := a ! hr + 1]) (replicate 24 0) [9, 9])) = 9"
  by code_simp

lemma two_users:
  assumes "cnts um = [(a, 1), (b, 1)]" "a \<noteq> b"
  shows "map (\<lambda>u. (name u, messageCount u)) (final_users um) = [(a, 1), (b, 1)]"
proof -
  from assms(1) obtain ua ub where um: "um = [(a, ua), (b, ub)]" "count ua = 1" "count ub = 1"
    by (cases um; cases "tl um"; cases "tl (tl um)") (auto simp: cnts_def)
  show ?thesis
    using assms(2) by (simp add: um final_users_def sortedUserNames_def user_stat_def Let_def)
qed

lemma two_messages_one_day:
  assumes "sender m1 \<noteq> sender m2" "dateKey m1 = dateKey m2"
    and "getHours h (date m1) = 9" "getHours h (date m2) = 9"
    and "date m2 - date m1 = 60000"
  shows "map (\<lambda>u. (name u, messageCount u)) (users (analyzeMessages h [m1, m2] None))
           = [(sender m1, 1), (sender m2, 1)]"
    and "busiestHour (analyzeMessages h [m1, m2] None) = 9"
    and "longestStreak (analyzeMessages h [m1, m2] None) = 1"
    and "maxSilenceHours (silenceBreaker (analyzeMessages h [m1, m2] None)) = 0"
proof -
  let ?st = "loop h 0 [m1, m2] init_state"
  let ?r = "analyzeMessages h [m1, m2] None"
  have f: "filteredMessages h [m1, m2] None = [m1, m2]" by (simp add: filteredMessages_def)
  have ne: "filteredMessages h [m1, m2] None \<noteq> []" by (simp add: f)
  have "cnts (userMap ?st)
      = foldl (\<lambda>a m. bump (sender m) a) (cnts (userMap init_state)) [m1, m2]"
    by (rule loop_cnts)
  then have "cnts (userMap ?st) = [(sender m1, 1), (sender m2, 1)]"
    using assms(1) by (simp add: bump_def init_state_def cnts_def)
  then have "cnts (one_sided_days (dailyBreakdown ?st) (userMap ?st))
      = [(sender m1, 1), (sender m2, 1)]"
    by (simp add: cnts_one_sided_days)
  from two_users [OF this assms(1)]
  show "map (\<lambda>u. (name u, messageCount u)) (users ?r) = [(sender m1, 1), (sender m2, 1)]"
    using users_eq [OF ne] by (simp add: f)
  have "hourlyCounts ?st = foldl (\<lambda>a hr. a[hr := a ! hr + 1]) (hourlyCounts init_state)
      (map (\<lambda>m. getHours h (date m)) [m1, m2])"
    by (rule loop_hourly_fold)
  then have "hourlyCounts ?st = foldl (\<lambda>a hr. a[hr := a ! hr + 1]) (replicate 24 0) [9, 9]"
    by (simp only: list.map assms(3,4) init_state_def loop_state.simps)
  moreover have "busiestHour ?r = fst (busiest (hourlyCounts ?st))"
    by (simp add: analyzeMessages_def f Let_def split: prod.splits)
  ultimately show "busiestHour ?r = 9" by (simp only: busiest_nine)
  have "dailyTotalCounts ?st
      = foldl (\<lambda>a m. bump (dateKey m) a) (dailyTotalCounts init_state) [m1, m2]"
    by (rule loop_daily)
  then have "map fst (dailyTotalCounts ?st) = [dateKey m1]"
    by (simp add: assms(2) bump_def init_state_def)
  then have "streak (map fst (dailyTotalCounts ?st)) = 1"
    by (simp add: streak_def streak_step_def)
  then show "longestStreak ?r = 1" using longestStreak_eq [OF ne] by (simp add: f)
  have "maxSilenceTime ?st = 0"
    using assms(5)
    by (simp add: step_maxSilence step_lastMsgTime silence_step_def is_start_def)
       (simp add: init_state_def)
  moreover have "maxSilenceHours (silenceBreaker ?r) = Math_round (maxSilenceTime ?st)"
    by (simp add: analyzeMessages_def f Let_def split: prod.splits)
  ultimately show "maxSilenceHours (silenceBreaker ?r) = 0" by (simp only: Math_round_zero)
qed

text \<open>
  C4. On a host whose offset from UTC is a multiple of 15 minutes (and less than a day),
  whatever its locale, the transcript of the two lines \<open>12/05/23, 9:00 - Alice: hello\<close>
  and \<open>12/05/23, 9:01 - Bob: hi there\<close> parses into 2 messages, and their analysis has
  the users Alice and Bob with \<open>messageCount\<close> 1 each, \<open>busiestHour\<close> 9, \<open>longestStreak\<close> 1
  and \<open>silenceBreaker.maxSilenceHours\<close> 0.
\<close>

theorem C4_two_line_chat:
  assumes "tzOffset h mod 900000 = 0" and "\<bar>tzOffset h\<bar> \<le> 86400000"
  shows "length (messages (parseChatFile h (Some two_lines))) = 2
       \<and> map (\<lambda>u. (name u, messageCount u))
             (users (analyzeMessages h (messages (parseChatFile h (Some two_lines))) None))
           = [(js ''Alice'', 1), (js ''Bob'', 1)]
       \<and> busiestHour (analyzeMessages h (messages (parseChatFile h (Some two_lines))) None) = 9
       \<and> longestStreak (analyzeMessages h (messages (parseChatFile h (Some two_lines))) None) = 1
       \<and> maxSilenceHours (silenceBreaker
             (analyzeMessages h (messages (parseChatFile h (Some two_lines))) None)) = 0"
proof -
  from two_lines_parsed [OF assms(2)] obtain fmt where
    p: "messages (parseChatFile h (Some two_lines))
      = [\<lparr>date = local_start fmt - tzOffset h, sender = js ''Alice'', content = js ''hello''\<rparr>,
         \<lparr>date = local_start fmt + 60000 - tzOffset h, sender = js ''Bob'',
            content = js ''hi there''\<rparr>]"
    by blast
  let ?m1 = "\<lparr>date = local_start fmt - tzOffset h, sender = js ''Alice'', content = js ''hello''\<rparr>"
  let ?m2 = "\<lparr>date = local_start fmt + 60000 - tzOffset h, sender = js ''Bob'',
               content = js ''hi there''\<rparr>"
  have s: "sender ?m1 \<noteq> sender ?m2" by (simp add: js_def)
  have L: "local_start fmt mod 900000 = 0" by (simp add: local_start_def)
  have "900000 dvd local_start fmt - tzOffset h"
    using L assms(1) by (simp add: dvd_diff mod_0_imp_dvd)
  then have "(local_start fmt - tzOffset h) mod 900000 = 0" by simp
  from same_day_quarter [OF this]
  have "Day (date ?m2) = Day (date ?m1)"
    by (simp add: Day_def msPerDay_def algebra_simps)
  then have k: "dateKey ?m1 = dateKey ?m2" by (simp only: dateKey_Day)
  have h1: "getHours h (date ?m1) = 9" by (simp add: getHours_def LocalTime_def local_start_def)
  have h2: "getHours h (date ?m2) = 9" by (simp add: getHours_def LocalTime_def local_start_def)
  have d: "date ?m2 - date ?m1 = 60000" by simp
  from two_messages_one_day [OF s k h1 h2 d] show ?thesis
    by (simp add: p)
qed


theorem C4_two_line_chat_witness:
  "tzOffset utc_host mod 900000 = 0 \<and> \<bar>tzOffset utc_host\<bar> \<le> 86400000
   \<and> length (messages (parseChatFile utc_host (Some two_lines))) = 2
   \<and> map (\<lambda>u. (name u, messageCount u))
         (users (analyzeMessages utc_host (messages (parseChatFile utc_host (Some two_lines))) None))
       = [(js ''Alice'', 1), (js ''Bob'', 1)]
   \<and> busiestHour (analyzeMessages utc_host (messages (parseChatFile utc_host (Some two_lines))) None) = 9
   \<and> longestStreak (analyzeMessages utc_host (messages (parseChatFile utc_host (Some two_lines))) None) = 1
   \<and> maxSilenceHours (silenceBreaker
         (analyzeMessages utc_host (messages (parseChatFile utc_host (Some two_lines))) None)) = 0"
proof -
  have a: "tzOffset utc_host mod 900000 = 0" and b: "\<bar>tzOffset utc_host\<bar> \<le> 86400000"
    by (simp_all add: utc_host_def)
  from C4_two_line_chat [OF a b] a b show ?thesis by (intro conjI) simp_all
qed

section \<open>Dependence on the clock\<close>











end
